theory Spec2Isabelle
  imports Main
begin

section \<open>Strings and the collaborators of the indexer\<close>

text \<open>
  A JavaScript string is a sequence of UTF-16 code units. Note titles and contents are
  kept as such sequences, because \<^verbatim>\<open>String.prototype.trim\<close> is defined on code units;
  note identifiers are only compared and tested for emptiness, and are kept as
  \<^typ>\<open>string\<close>.
\<close>

type_synonym jsstring = "nat list"

text \<open>
  The code units that \<^verbatim>\<open>trim\<close> strips: the WhiteSpace and LineTerminator productions of
  ECMAScript (TAB, LF, VT, FF, CR, SP, NBSP, U+1680, U+2000 to U+200A, U+2028, U+2029,
  U+202F, U+205F, U+3000 and U+FEFF).
\<close>

definition js_whitespace :: "nat \<Rightarrow> bool" where
  "js_whitespace c \<longleftrightarrow>
     c \<in> {9, 10, 11, 12, 13, 32, 160, 5760, 8232, 8233, 8239, 8287, 12288, 65279}
     \<or> (8192 \<le> c \<and> c \<le> 8202)"

definition trim :: "jsstring \<Rightarrow> jsstring" where
  "trim s = rev (dropWhile js_whitespace (rev (dropWhile js_whitespace s)))"

text \<open>\<^verbatim>\<open>x || ''\<close> on a value that is a string, \<^verbatim>\<open>null\<close> or \<^verbatim>\<open>undefined\<close>.\<close>

definition orEmpty :: "'a list option \<Rightarrow> 'a list" where
  "orEmpty x = (case x of None \<Rightarrow> [] | Some s \<Rightarrow> s)"

datatype error =
    EmptyNoteContent          \<comment> \<open>\<^verbatim>\<open>new Error('Empty note content')\<close>\<close>
  | FailedToLoadVectorIndex   \<comment> \<open>\<^verbatim>\<open>new Error('Failed to load vector index. Run "npm run index" first.')\<close>\<close>
  | FailedToSaveVectorIndex   \<comment> \<open>\<^verbatim>\<open>new Error('Failed to save vector index')\<close>\<close>
  | EmbedderError string      \<comment> \<open>whatever the embedding collaborator throws\<close>
  | DatabaseError             \<comment> \<open>whatever better-sqlite3 throws\<close>
  | FileError                 \<comment> \<open>whatever \<^verbatim>\<open>fs/promises\<close> throws\<close>

text \<open>
  Modelled from the spec: \<^verbatim>\<open>initEmbedder\<close> and \<^verbatim>\<open>createEmbedding\<close> of \<^verbatim>\<open>utils.js\<close>
  are imported but are not part of the sources; the specification gives them as the
  embedding collaborator, \<^verbatim>\<open>embed(text) -> fixed-length numeric vector\<close>, which may fail.
  They are parameters of the model, as is the reading of \<^verbatim>\<open>Date.now()\<close>, indexed by
  the iteration of the batch loop that takes it.
\<close>

record 'v env =
  initEmbedder :: "error + bool"
  createEmbedding :: "jsstring \<Rightarrow> error + 'v"
  dateNow :: "nat \<Rightarrow> int"

section \<open>The vector index and the position mapping\<close>

text \<open>
  \<^verbatim>\<open>noteIdMap\<close> is a JavaScript object whose keys are index positions. Such keys are
  enumerated by \<^verbatim>\<open>Object.entries\<close> in ascending numeric order, so the object is the
  list of its entries in that order.
\<close>

type_synonym noteIdMap = "(nat \<times> string) list"

definition obj_get :: "noteIdMap \<Rightarrow> nat \<Rightarrow> string option" where
  "obj_get m p = map_of m p"

text \<open>\<^verbatim>\<open>noteIdMap[position] = noteId\<close>\<close>

definition obj_set :: "nat \<Rightarrow> string \<Rightarrow> noteIdMap \<Rightarrow> noteIdMap" where
  "obj_set p v m = filter (\<lambda>(q, _). q < p) m @ [(p, v)] @ filter (\<lambda>(q, _). p < q) m"

text \<open>\<^verbatim>\<open>delete noteIdMap[position]\<close>\<close>

definition obj_delete :: "nat \<Rightarrow> noteIdMap \<Rightarrow> noteIdMap" where
  "obj_delete p m = filter (\<lambda>(q, _). q \<noteq> p) m"

text \<open>\<^verbatim>\<open>Object.entries(noteIdMap).find(([_, id]) => id === noteId)?.[0]\<close>\<close>

definition find_position :: "noteIdMap \<Rightarrow> string \<Rightarrow> nat option" where
  "find_position m noteId = map_option fst (List.find (\<lambda>(_, i). i = noteId) m)"

text \<open>
  Modelled from the spec: the FAISS index of \<^verbatim>\<open>faiss-node\<close> is not part of the sources;
  the specification gives it as an append-only ordered collection of vectors whose only
  mutation appends one vector at position "count before append". It is the list of its
  vectors; \<^verbatim>\<open>index.ntotal\<close> is the length and \<^verbatim>\<open>index.add\<close> appends.
\<close>

record 'v index_state =
  vectors :: "'v list"
  noteIdMap :: noteIdMap

definition ntotal :: "('v, 'x) index_state_scheme \<Rightarrow> nat" where
  "ntotal st = length (vectors st)"

definition index_add :: "'v \<Rightarrow> 'v index_state \<Rightarrow> 'v index_state" where
  "index_add embedding st = st\<lparr>vectors := vectors st @ [embedding]\<rparr>"

text \<open>
  \<^verbatim>\<open>addNoteToIndex(index, noteIdMap, noteId, title, content)\<close>. The index and the
  mapping are mutated in place and the function may throw after a mutation, so the
  model returns the state in both cases, next to the position or the error.
\<close>

definition addNoteToIndex ::
  "'v env \<Rightarrow> string \<Rightarrow> jsstring \<Rightarrow> jsstring option \<Rightarrow> 'v index_state
     \<Rightarrow> (error + nat) \<times> 'v index_state" where
  "addNoteToIndex e noteId title content st =
     (let textToEmbed = trim (title @ [10] @ orEmpty content) in
      if textToEmbed = [] then (Inl EmptyNoteContent, st)
      else case createEmbedding e textToEmbed of
             Inl err \<Rightarrow> (Inl err, st)
           | Inr embedding \<Rightarrow>
               let st1 = index_add embedding st;
                   position = ntotal st1 - 1
               in (Inr position, st1\<lparr>noteIdMap := obj_set position noteId (noteIdMap st1)\<rparr>))"

text \<open>\<^verbatim>\<open>updateNoteInIndex(index, noteIdMap, noteId, title, content)\<close>\<close>

definition updateNoteInIndex ::
  "'v env \<Rightarrow> string \<Rightarrow> jsstring \<Rightarrow> jsstring option \<Rightarrow> 'v index_state
     \<Rightarrow> (error + nat) \<times> 'v index_state" where
  "updateNoteInIndex e noteId title content st =
     (case find_position (noteIdMap st) noteId of
        None \<Rightarrow> addNoteToIndex e noteId title content st
      | Some position \<Rightarrow>
          addNoteToIndex e noteId title content
            (st\<lparr>noteIdMap := obj_delete position (noteIdMap st)\<rparr>))"

text \<open>
  The mapping of a consistent index: its keys are positions the index has assigned,
  in the order in which \<^verbatim>\<open>Object.entries\<close> lists them.
\<close>

definition positions_ok :: "'v index_state \<Rightarrow> bool" where
  "positions_ok st \<longleftrightarrow>
     sorted_wrt (<) (map fst (noteIdMap st)) \<and> list_all (\<lambda>(p, _). p < ntotal st) (noteIdMap st)"

section \<open>Notes, metadata and the world outside the process\<close>

text \<open>
  A row of the query of \<^verbatim>\<open>updateIndex\<close>: \<^verbatim>\<open>id\<close>, \<^verbatim>\<open>title\<close>, \<^verbatim>\<open>content\<close>, \<^verbatim>\<open>modified\<close>.
  The three text columns may be NULL.
\<close>

record bear_note =
  note_id :: "string option"
  title :: "jsstring option"
  content :: "jsstring option"
  modified :: int

text \<open>The object kept in \<^verbatim>\<open>index_metadata.json\<close>; \<^verbatim>\<open>indexedNotes\<close> may be missing from it.\<close>

record metadata =
  lastUpdate :: int
  indexedNotes :: "(string \<rightharpoonup> int) option"
  lastVersion :: int

text \<open>
  \<^verbatim>\<open>indexMetadata.indexedNotes && indexMetadata.indexedNotes[note.id]\<close> as a condition:
  the entry is a number, which is truthy unless it is 0. (Identifiers that name a
  property of \<^verbatim>\<open>Object.prototype\<close> are not modelled.)
\<close>

definition already_indexed :: "metadata \<Rightarrow> string \<Rightarrow> bool" where
  "already_indexed md noteId =
     (case indexedNotes md of
        None \<Rightarrow> False
      | Some ix \<Rightarrow> (case ix noteId of None \<Rightarrow> False | Some t \<Rightarrow> t \<noteq> 0))"

text \<open>\<^verbatim>\<open>if (indexMetadata.indexedNotes) { indexMetadata.indexedNotes[note.id] = Date.now(); }\<close>\<close>

definition mark_indexed :: "metadata \<Rightarrow> string \<Rightarrow> int \<Rightarrow> metadata" where
  "mark_indexed md noteId t =
     (case indexedNotes md of
        None \<Rightarrow> md
      | Some ix \<Rightarrow> md\<lparr>indexedNotes := Some (ix(noteId \<mapsto> t))\<rparr>)"

text \<open>
  The table \<^verbatim>\<open>ZSFNOTE\<close> of the Bear database, with the columns the queries read. A row
  whose \<^verbatim>\<open>ZMODIFICATIONDATE\<close> or \<^verbatim>\<open>ZTRASHED\<close> is NULL satisfies no \<^verbatim>\<open>WHERE\<close> clause of the
  program and is left out of the table.
\<close>

record dbrow =
  ZUNIQUEIDENTIFIER :: "string option"
  ZTITLE :: "jsstring option"
  ZTEXT :: "jsstring option"
  ZMODIFICATIONDATE :: int
  ZTRASHED :: int

record database =
  ZSFNOTE :: "dbrow list"
  data_version :: int
  openable :: bool       \<comment> \<open>\<^verbatim>\<open>new Database(dbPath, { readonly: true })\<close> returns\<close>
  query_throws :: bool   \<comment> \<open>\<^verbatim>\<open>db.prepare(...).all(...)\<close> throws\<close>
  pragma_throws :: bool  \<comment> \<open>\<^verbatim>\<open>db.pragma('data_version', ...)\<close> throws\<close>

text \<open>
  The journal lists what the process does to the outside: file and database accesses,
  in the order of the calls, and the console lines of \<^verbatim>\<open>updateIndex\<close>.
\<close>

datatype message =
    IndexingAlreadyInProgress    \<comment> \<open>\<^verbatim>\<open>'Indexing already in progress, skipping...'\<close>\<close>
  | CheckingForNoteUpdates       \<comment> \<open>\<^verbatim>\<open>'Checking for note updates...'\<close>\<close>
  | NoModifiedNotesFound         \<comment> \<open>\<^verbatim>\<open>'No new or modified notes found'\<close>\<close>
  | FoundNotesToUpdate nat       \<comment> \<open>\<^verbatim>\<open>`Found ${modifiedNotes.length} notes to update`\<close>\<close>
  | IndexMetadataUpdated         \<comment> \<open>\<^verbatim>\<open>`Index metadata updated at ${new Date().toISOString()}`\<close>\<close>
  | IndexUpdateCompleted nat     \<comment> \<open>\<^verbatim>\<open>`Index update completed - processed ${processedCount} notes`\<close>\<close>
  | ErrorUpdatingIndex error     \<comment> \<open>\<^verbatim>\<open>'Error updating index:'\<close>\<close>
  | SchedulingFollowUp           \<comment> \<open>\<^verbatim>\<open>'Additional changes detected during indexing, scheduling follow-up...'\<close>\<close>

datatype effect =
    ReadIndexFile | ReadMapFile | WriteIndexFile | WriteMapFile
  | ReadMetadataFile | WriteMetadataFile
  | QueryModifiedNotes int | ReadDataVersion
  | Console message

text \<open>
  The files \<^verbatim>\<open>note_vectors.index\<close>, \<^verbatim>\<open>note_vectors.json\<close> and \<^verbatim>\<open>index_metadata.json\<close>
  (\<open>None\<close>: absent, unreadable or not parsable), whether a write to each succeeds,
  whether chokidar can watch the database file, the database and the journal.
\<close>

record 'v world =
  index_file :: "'v list option"
  map_file :: "noteIdMap option"
  metadata_file :: "metadata option"
  index_writable :: bool
  map_writable :: bool
  metadata_writable :: bool
  watchable :: bool
  database :: database
  journal :: "effect list"

definition perform :: "effect \<Rightarrow> 'v world \<Rightarrow> 'v world" where
  "perform x w = w\<lparr>journal := journal w @ [x]\<rparr>"

section \<open>\<^verbatim>\<open>services/incremental-index.js\<close>\<close>

text \<open>
  \<^verbatim>\<open>loadVectorIndex()\<close>: \<^verbatim>\<open>IndexFlatL2.read\<close>, then \<^verbatim>\<open>fs.readFile\<close> and \<^verbatim>\<open>JSON.parse\<close>;
  whatever is thrown is replaced by the one error of the \<^verbatim>\<open>catch\<close> block.
\<close>

definition loadVectorIndex :: "'v world \<Rightarrow> (error + 'v index_state) \<times> 'v world" where
  "loadVectorIndex w =
     (let w1 = perform ReadIndexFile w in
      case index_file w1 of
        None \<Rightarrow> (Inl FailedToLoadVectorIndex, w1)
      | Some index \<Rightarrow>
          (let w2 = perform ReadMapFile w1 in
           case map_file w2 of
             None \<Rightarrow> (Inl FailedToLoadVectorIndex, w2)
           | Some idMap \<Rightarrow> (Inr \<lparr>vectors = index, noteIdMap = idMap\<rparr>, w2)))"

text \<open>
  \<^verbatim>\<open>saveVectorIndex(index, noteIdMap)\<close>: \<^verbatim>\<open>index.write\<close>, then \<^verbatim>\<open>fs.writeFile\<close>; \<open>None\<close>
  is the normal return.
\<close>

definition saveVectorIndex :: "'v index_state \<Rightarrow> 'v world \<Rightarrow> error option \<times> 'v world" where
  "saveVectorIndex st w =
     (let w1 = perform WriteIndexFile w in
      if \<not> index_writable w1 then (Some FailedToSaveVectorIndex, w1)
      else
        let w2 = perform WriteMapFile (w1\<lparr>index_file := Some (vectors st)\<rparr>) in
        if \<not> map_writable w2 then (Some FailedToSaveVectorIndex, w2)
        else (None, w2\<lparr>map_file := Some (noteIdMap st)\<rparr>))"

text \<open>
  The \<^verbatim>\<open>for\<close> loop of \<^verbatim>\<open>processNotes\<close> over the notes, from iteration \<open>k\<close> on. Its
  variables are the index and mapping, the metadata object and \<^verbatim>\<open>processedCount\<close>. A
  note without identifier is skipped by \<^verbatim>\<open>continue\<close>; an error thrown for a note is
  caught inside the loop, and the loop goes on with what the failed call left behind.
\<close>

fun processLoop ::
  "'v env \<Rightarrow> nat \<Rightarrow> bear_note list \<Rightarrow> 'v index_state \<times> metadata \<times> nat
     \<Rightarrow> 'v index_state \<times> metadata \<times> nat" where
  "processLoop e k [] acc = acc"
| "processLoop e k (n # notes) (st, md, processedCount) =
     (case note_id n of
        None \<Rightarrow> processLoop e (Suc k) notes (st, md, processedCount)
      | Some noteId \<Rightarrow>
          if noteId = [] then processLoop e (Suc k) notes (st, md, processedCount)
          else
            (case (if already_indexed md noteId
                   then updateNoteInIndex e noteId (orEmpty (title n)) (Some (orEmpty (content n))) st
                   else addNoteToIndex e noteId (orEmpty (title n)) (Some (orEmpty (content n))) st) of
               (Inl err, st') \<Rightarrow> processLoop e (Suc k) notes (st', md, processedCount)
             | (Inr position, st') \<Rightarrow>
                 processLoop e (Suc k) notes
                   (st', mark_indexed md noteId (dateNow e k), Suc processedCount)))"

text \<open>
  \<^verbatim>\<open>processNotes(notes, indexMetadata)\<close>. The metadata object is mutated by the loop, so
  it is returned also when saving fails afterwards.
\<close>

definition processNotes ::
  "'v env \<Rightarrow> bear_note list \<Rightarrow> metadata \<Rightarrow> 'v world \<Rightarrow> (error + nat) \<times> metadata \<times> 'v world" where
  "processNotes e notes md w =
     (if notes = [] then (Inr 0, md, w)
      else case initEmbedder e of
        Inl err \<Rightarrow> (Inl err, md, w)
      | Inr _ \<Rightarrow>
          (case loadVectorIndex w of
             (Inl err, w1) \<Rightarrow> (Inl err, md, w1)
           | (Inr st, w1) \<Rightarrow>
               (case processLoop e 0 notes (st, md, 0) of
                  (st', md', processedCount) \<Rightarrow>
                    (case saveVectorIndex st' w1 of
                       (Some err, w2) \<Rightarrow> (Inl err, md', w2)
                     | (None, w2) \<Rightarrow> (Inr processedCount, md', w2)))))"

section \<open>\<^verbatim>\<open>services/watch-index.js\<close>\<close>

text \<open>
  The module that \<^verbatim>\<open>bear-mcp-server.js\<close> imports under this name; in the sources it is
  the second half of \<^verbatim>\<open>src/create-index.js\<close>.

  The query of \<^verbatim>\<open>updateIndex\<close>:
  \<^verbatim>\<open>WHERE ZTRASHED = 0 AND ZMODIFICATIONDATE > ? ORDER BY ZMODIFICATIONDATE ASC\<close>.
  Rows of equal date come in the order of the table, which is one of the orders that
  SQLite may choose.
\<close>

definition select_modified :: "int \<Rightarrow> dbrow list \<Rightarrow> bear_note list" where
  "select_modified since table =
     sort_key modified
       (map (\<lambda>r. \<lparr>note_id = ZUNIQUEIDENTIFIER r, title = ZTITLE r, content = ZTEXT r,
                  modified = ZMODIFICATIONDATE r\<rparr>)
            (filter (\<lambda>r. ZTRASHED r = 0 \<and> since < ZMODIFICATIONDATE r) table))"

definition query_modified_notes ::
  "int \<Rightarrow> 'v world \<Rightarrow> (error + bear_note list) \<times> 'v world" where
  "query_modified_notes since w =
     (let w1 = perform (QueryModifiedNotes since) w in
      if query_throws (database w1) then (Inl DatabaseError, w1)
      else (Inr (select_modified since (ZSFNOTE (database w1))), w1))"

definition pragma_data_version :: "'v world \<Rightarrow> (error + int) \<times> 'v world" where
  "pragma_data_version w =
     (let w1 = perform ReadDataVersion w in
      if pragma_throws (database w1) then (Inl DatabaseError, w1)
      else (Inr (data_version (database w1)), w1))"

text \<open>\<^verbatim>\<open>fs.writeFile(METADATA_PATH, JSON.stringify(metadata, null, 2))\<close>\<close>

definition write_metadata :: "metadata \<Rightarrow> 'v world \<Rightarrow> error option \<times> 'v world" where
  "write_metadata md w =
     (let w1 = perform WriteMetadataFile w in
      if metadata_writable w1 then (None, w1\<lparr>metadata_file := Some md\<rparr>)
      else (Some FileError, w1))"

text \<open>\<^verbatim>\<open>initializeMetadata()\<close>\<close>

definition initializeMetadata :: "'v world \<Rightarrow> (error + metadata) \<times> 'v world" where
  "initializeMetadata w =
     (let w1 = perform ReadMetadataFile w in
      case metadata_file w1 of
        Some md \<Rightarrow> (Inr md, w1)
      | None \<Rightarrow>
          (let md = \<lparr>lastUpdate = 0, indexedNotes = Some Map.empty, lastVersion = 0\<rparr> in
           case write_metadata md w1 of
             (Some err, w2) \<Rightarrow> (Inl err, w2)
           | (None, w2) \<Rightarrow> (Inr md, w2)))"

text \<open>
  An activation of the asynchronous \<^verbatim>\<open>updateIndex\<close> that has been suspended: at
  \<^verbatim>\<open>await processNotes(modifiedNotes, metadata)\<close>, holding the notes it fetched, or at
  \<^verbatim>\<open>await fs.writeFile(METADATA_PATH, ...)\<close>, holding \<^verbatim>\<open>processedCount\<close> and the outcome of
  the write it has issued.
\<close>

datatype pass =
    AwaitProcessNotes "bear_note list"
  | AwaitWriteMetadata nat "error option"

text \<open>
  The state of the process: the module variables of \<^verbatim>\<open>watch-index.js\<close>, the metadata
  object that all callbacks share, the suspended activations of \<^verbatim>\<open>updateIndex\<close>, the
  timers of the event loop armed by \<^verbatim>\<open>setTimeout\<close> (handle and due time), its clock in
  milliseconds, and the world. \<open>fileWatcher\<close> and \<open>pollInterval\<close> say whether the
  subscription and the interval are live. The handle that \<^verbatim>\<open>setTimeout\<close> returns is an
  object in Node.js, so that \<^verbatim>\<open>if (pendingUpdateTimeout)\<close> asks whether the variable holds
  one; handles are numbered in the order of their creation.
\<close>

record 'v sys =
  isIndexing :: bool
  lastVersion_var :: int
  dbChangeDetected :: bool
  pendingUpdateTimeout :: "nat option"
  pollInterval :: bool
  fileWatcher :: bool
  metadata_obj :: metadata
  passes :: "pass list"
  timeouts :: "(nat \<times> nat) list"
  next_handle :: nat
  clock :: nat
  world :: "'v world"

definition console :: "message \<Rightarrow> 'v sys \<Rightarrow> 'v sys" where
  "console m s = s\<lparr>world := perform (Console m) (world s)\<rparr>"

definition clearTimeout :: "nat \<Rightarrow> 'v sys \<Rightarrow> 'v sys" where
  "clearTimeout h s = s\<lparr>timeouts := filter (\<lambda>(h', _). h' \<noteq> h) (timeouts s)\<rparr>"

definition setTimeout :: "nat \<Rightarrow> 'v sys \<Rightarrow> nat \<times> 'v sys" where
  "setTimeout delay s =
     (next_handle s,
      s\<lparr>timeouts := timeouts s @ [(next_handle s, clock s + delay)],
        next_handle := Suc (next_handle s)\<rparr>)"

text \<open>\<^verbatim>\<open>scheduleUpdate(db, metadata)\<close>\<close>

definition scheduleUpdate :: "'v sys \<Rightarrow> 'v sys" where
  "scheduleUpdate s =
     (let s1 = (case pendingUpdateTimeout s of None \<Rightarrow> s | Some h \<Rightarrow> clearTimeout h s) in
      case setTimeout 1000 s1 of
        (h, s2) \<Rightarrow> s2\<lparr>pendingUpdateTimeout := Some h\<rparr>)"

text \<open>The \<^verbatim>\<open>finally\<close> block of \<^verbatim>\<open>updateIndex\<close>.\<close>

definition updateIndex_finally :: "'v sys \<Rightarrow> 'v sys" where
  "updateIndex_finally s =
     (let s1 = s\<lparr>isIndexing := False\<rparr> in
      if dbChangeDetected s1 then scheduleUpdate (console SchedulingFollowUp s1) else s1)"

text \<open>
  \<^verbatim>\<open>updateIndex(db, metadata)\<close>, from the call to its return or to its first \<^verbatim>\<open>await\<close>.
\<close>

definition updateIndex :: "'v sys \<Rightarrow> 'v sys" where
  "updateIndex s =
     (if isIndexing s then console IndexingAlreadyInProgress s
      else
        let s1 = console CheckingForNoteUpdates (s\<lparr>isIndexing := True, dbChangeDetected := False\<rparr>) in
        case query_modified_notes (lastUpdate (metadata_obj s1)) (world s1) of
          (Inl err, w) \<Rightarrow> updateIndex_finally (console (ErrorUpdatingIndex err) (s1\<lparr>world := w\<rparr>))
        | (Inr modifiedNotes, w) \<Rightarrow>
            let s2 = s1\<lparr>world := w\<rparr> in
            if modifiedNotes = []
            then updateIndex_finally ((console NoModifiedNotesFound s2)\<lparr>isIndexing := False\<rparr>)
            else (console (FoundNotesToUpdate (length modifiedNotes)) s2)
                   \<lparr>passes := passes s2 @ [AwaitProcessNotes modifiedNotes]\<rparr>)"

text \<open>
  The continuation of the \<open>i\<close>-th suspended activation. \<^verbatim>\<open>processNotes\<close> runs as one
  step: between its own \<^verbatim>\<open>await\<close>s it works on the index it has loaded itself and on
  \<^verbatim>\<open>indexMetadata.indexedNotes\<close>, which no callback of this module reads or writes.
\<close>

definition updateIndex_resume :: "'v env \<Rightarrow> nat \<Rightarrow> 'v sys \<Rightarrow> 'v sys" where
  "updateIndex_resume e i s =
     (if length (passes s) \<le> i then s
      else
        case passes s ! i of
          AwaitProcessNotes modifiedNotes \<Rightarrow>
            (case processNotes e modifiedNotes (metadata_obj s) (world s) of
               (Inl err, md, w) \<Rightarrow>
                 updateIndex_finally
                   (console (ErrorUpdatingIndex err)
                      (s\<lparr>metadata_obj := md, world := w,
                         passes := take i (passes s) @ drop (Suc i) (passes s)\<rparr>))
             | (Inr processedCount, md, w) \<Rightarrow>
                 let md1 = (if modifiedNotes \<noteq> []
                            then md\<lparr>lastUpdate := max (lastUpdate md) (modified (last modifiedNotes))\<rparr>
                            else md)
                 in case write_metadata md1 w of
                      (outcome, w1) \<Rightarrow>
                        s\<lparr>metadata_obj := md1, world := w1,
                          passes := (passes s)[i := AwaitWriteMetadata processedCount outcome]\<rparr>)
        | AwaitWriteMetadata processedCount outcome \<Rightarrow>
            let s1 = s\<lparr>passes := take i (passes s) @ drop (Suc i) (passes s)\<rparr> in
            (case outcome of
               None \<Rightarrow>
                 updateIndex_finally
                   (console (IndexUpdateCompleted processedCount) (console IndexMetadataUpdated s1))
             | Some err \<Rightarrow> updateIndex_finally (console (ErrorUpdatingIndex err) s1)))"

text \<open>\<^verbatim>\<open>checkDatabaseVersion(db, metadata)\<close>\<close>

definition checkDatabaseVersion :: "'v sys \<Rightarrow> bool \<times> 'v sys" where
  "checkDatabaseVersion s =
     (case pragma_data_version (world s) of
        (Inl err, w) \<Rightarrow> (False, s\<lparr>world := w\<rparr>)
      | (Inr currentVersion, w) \<Rightarrow>
          let s1 = s\<lparr>world := w\<rparr> in
          if currentVersion \<noteq> lastVersion (metadata_obj s1) then
            let s2 = s1\<lparr>lastVersion_var := currentVersion,
                       metadata_obj := (metadata_obj s1)\<lparr>lastVersion := currentVersion\<rparr>\<rparr>
            in (True, if \<not> isIndexing s2 then scheduleUpdate s2 else s2)
          else (False, s1))"

text \<open>\<^verbatim>\<open>setupPolling(db, metadata)\<close> and \<^verbatim>\<open>setupFileWatcher(dbPath, db, metadata)\<close>\<close>

definition setupPolling :: "'v sys \<Rightarrow> 'v sys" where
  "setupPolling s = s\<lparr>pollInterval := True\<rparr>"

definition setupFileWatcher :: "'v sys \<Rightarrow> bool \<times> 'v sys" where
  "setupFileWatcher s =
     (if watchable (world s) then (True, s\<lparr>fileWatcher := True\<rparr>)
      else (False, s\<lparr>fileWatcher := False\<rparr>))"

text \<open>
  \<^verbatim>\<open>monitorDatabase()\<close>; an error is what makes the \<^verbatim>\<open>catch\<close> block end the process with
  \<^verbatim>\<open>process.exit(1)\<close>.
\<close>

definition monitorDatabase :: "'v world \<Rightarrow> error + 'v sys" where
  "monitorDatabase w =
     (case initializeMetadata w of
        (Inl err, w1) \<Rightarrow> Inl err
      | (Inr md, w1) \<Rightarrow>
          if \<not> openable (database w1) then Inl DatabaseError
          else
            let s0 = \<lparr>isIndexing = False, lastVersion_var = lastVersion md,
                      dbChangeDetected = False, pendingUpdateTimeout = None,
                      pollInterval = False, fileWatcher = False, metadata_obj = md,
                      passes = [], timeouts = [], next_handle = 0, clock = 0, world = w1\<rparr>;
                s1 = snd (setupFileWatcher s0);
                s2 = setupPolling s1
            in Inr (snd (checkDatabaseVersion s2)))"

text \<open>
  What the event loop can run next: the \<^verbatim>\<open>change\<close> and \<^verbatim>\<open>error\<close> callbacks of the
  watcher, the callback of the polling interval, the callback of a timer that is due,
  the continuation of a suspended activation. The other two events are not the
  program's: another process writes the database, and time passes.
\<close>

datatype event =
    FileChange
  | WatcherError
  | PollTick
  | TimeoutExpired nat
  | Resume nat
  | DatabaseWritten "dbrow list" int
  | Elapse nat

definition timeout_expired :: "nat \<Rightarrow> 'v sys \<Rightarrow> 'v sys" where
  "timeout_expired h s =
     (case map_of (timeouts s) h of
        None \<Rightarrow> s
      | Some due \<Rightarrow>
          if clock s < due then s
          else updateIndex ((clearTimeout h s)\<lparr>pendingUpdateTimeout := None\<rparr>))"

definition step :: "'v env \<Rightarrow> event \<Rightarrow> 'v sys \<Rightarrow> 'v sys" where
  "step e ev s =
     (case ev of
        FileChange \<Rightarrow>
          if fileWatcher s then
            (let s1 = s\<lparr>dbChangeDetected := True\<rparr> in
             if \<not> isIndexing s1 then snd (checkDatabaseVersion s1) else s1)
          else s
      | WatcherError \<Rightarrow> if fileWatcher s then setupPolling s else s
      | PollTick \<Rightarrow> if pollInterval s then snd (checkDatabaseVersion s) else s
      | TimeoutExpired h \<Rightarrow> timeout_expired h s
      | Resume i \<Rightarrow> updateIndex_resume e i s
      | DatabaseWritten table v \<Rightarrow>
          s\<lparr>world := (world s)\<lparr>database := (database (world s))\<lparr>ZSFNOTE := table, data_version := v\<rparr>\<rparr>\<rparr>
      | Elapse d \<Rightarrow> s\<lparr>clock := clock s + d\<rparr>)"

fun run :: "'v env \<Rightarrow> event list \<Rightarrow> 'v sys \<Rightarrow> 'v sys" where
  "run e [] s = s"
| "run e (ev # evs) s = run e evs (step e ev s)"

section \<open>Runs of the process\<close>

text \<open>
  The event loop runs the callbacks of all timers that are due.
\<close>

definition run_due_timeouts :: "'v sys \<Rightarrow> 'v sys" where
  "run_due_timeouts s = fold timeout_expired (map fst (timeouts s)) s"

text \<open>
  A burst of calls of \<open>scheduleUpdate\<close>: before each call, the given number of
  milliseconds passes and the event loop runs what has become due.
\<close>

fun burst :: "nat list \<Rightarrow> 'v sys \<Rightarrow> 'v sys" where
  "burst [] s = s"
| "burst (d # ds) s = burst ds (scheduleUpdate (run_due_timeouts (s\<lparr>clock := clock s + d\<rparr>)))"

text \<open>
  An invocation of \<open>updateIndex\<close> run to its end with nothing in between: the call and
  the continuations after its two \<^verbatim>\<open>await\<close>s.
\<close>

definition complete_pass :: "'v env \<Rightarrow> 'v sys \<Rightarrow> 'v sys" where
  "complete_pass e s = updateIndex_resume e 0 (updateIndex_resume e 0 (updateIndex s))"

text \<open>
  While an activation is suspended, the event loop runs other callbacks; its own
  continuation is not one of them.
\<close>

definition is_resume :: "event \<Rightarrow> bool" where
  "is_resume ev \<longleftrightarrow> (case ev of Resume i \<Rightarrow> True | _ \<Rightarrow> False)"

text \<open>
  Every invocation of \<open>updateIndex\<close> prints exactly one of two lines first, so the
  journal counts the invocations; it also counts the loads of the two stores and lists
  the writes.
\<close>

definition is_invocation :: "effect \<Rightarrow> bool" where
  "is_invocation x \<longleftrightarrow> x = Console IndexingAlreadyInProgress \<or> x = Console CheckingForNoteUpdates"

definition invocations :: "'v sys \<Rightarrow> nat" where
  "invocations s = length (filter is_invocation (journal (world s)))"

definition index_loads :: "'v world \<Rightarrow> nat" where
  "index_loads w = count_list (journal w) ReadIndexFile"

definition metadata_loads :: "'v world \<Rightarrow> nat" where
  "metadata_loads w = count_list (journal w) ReadMetadataFile"

definition is_write :: "effect \<Rightarrow> bool" where
  "is_write x \<longleftrightarrow> x \<in> {WriteIndexFile, WriteMapFile, WriteMetadataFile}"

definition writes_of :: "'v world \<Rightarrow> effect list" where
  "writes_of w = filter is_write (journal w)"

text \<open>
  What \<open>processNotes\<close> needs in order to return rather than throw, for a batch that is
  not empty: the embedder initialises, both artifacts load and both can be written.
\<close>

definition can_process :: "'v env \<Rightarrow> 'v world \<Rightarrow> bool" where
  "can_process e w \<longleftrightarrow>
     (case initEmbedder e of Inl err \<Rightarrow> False | Inr b \<Rightarrow> True) \<and>
     index_file w \<noteq> None \<and> map_file w \<noteq> None \<and> index_writable w \<and> map_writable w"

text \<open>
  Invariants of the state between two callbacks: the flag \<^verbatim>\<open>isIndexing\<close> is set exactly
  while one activation is suspended; a timer that is armed is the one that
  \<^verbatim>\<open>pendingUpdateTimeout\<close> holds. \<open>armed\<close> is the state of the timers right after
  \<open>scheduleUpdate\<close>.
\<close>

definition pass_inv :: "'v sys \<Rightarrow> bool" where
  "pass_inv s \<longleftrightarrow> length (passes s) = (if isIndexing s then 1 else 0)"

definition timer_inv :: "'v sys \<Rightarrow> bool" where
  "timer_inv s \<longleftrightarrow>
     length (timeouts s) \<le> 1 \<and> list_all (\<lambda>(h, due). pendingUpdateTimeout s = Some h) (timeouts s)"

definition armed :: "'v sys \<Rightarrow> bool" where
  "armed s \<longleftrightarrow>
     timeouts s = [(next_handle s - 1, clock s + 1000)] \<and>
     pendingUpdateTimeout s = Some (next_handle s - 1)"

section \<open>Concrete inputs\<close>

text \<open>
  An embedding collaborator that always succeeds (the vector of a text is its length),
  and a clock that shows 5000 at the first iteration of a batch.
\<close>

definition scenario_env :: "nat env" where
  "scenario_env = \<lparr>initEmbedder = Inr True, createEmbedding = (\<lambda>text. Inr (length text)),
                    dateNow = (\<lambda>k. 5000 + int k)\<rparr>"

text \<open>An index that holds the one note \<open>n1\<close>, and one that holds it at two positions.\<close>

definition one_note_index :: "nat index_state" where
  "one_note_index = \<lparr>vectors = [7], noteIdMap = [(0, ''n1'')]\<rparr>"

definition twice_indexed :: "nat index_state" where
  "twice_indexed = \<lparr>vectors = [7, 3], noteIdMap = [(0, ''n1''), (1, ''n1'')]\<rparr>"

text \<open>
  The notes and the metadata of the scenarios of the specification: \<open>n1\<close> with title "A"
  and content "B", modified at 1500, and \<open>n2\<close> with an empty title and an empty content.
\<close>

definition scenario_note :: bear_note where
  "scenario_note = \<lparr>note_id = Some ''n1'', title = Some [65], content = Some [66], modified = 1500\<rparr>"

definition empty_note :: bear_note where
  "empty_note = \<lparr>note_id = Some ''n2'', title = Some [], content = Some [], modified = 1600\<rparr>"

definition scenario_metadata :: metadata where
  "scenario_metadata = \<lparr>lastUpdate = 1000, indexedNotes = Some [''n1'' \<mapsto> 1000], lastVersion = 100\<rparr>"

definition scenario_database :: database where
  "scenario_database =
     \<lparr>ZSFNOTE = [\<lparr>ZUNIQUEIDENTIFIER = Some ''n1'', ZTITLE = Some [65], ZTEXT = Some [66],
                  ZMODIFICATIONDATE = 1500, ZTRASHED = 0\<rparr>],
      data_version = 200, openable = True, query_throws = False, pragma_throws = False\<rparr>"

definition scenario_world :: "nat world" where
  "scenario_world =
     \<lparr>index_file = Some [7], map_file = Some [(0, ''n1'')],
      metadata_file = Some scenario_metadata,
      index_writable = True, map_writable = True, metadata_writable = True, watchable = True,
      database = scenario_database, journal = []\<rparr>"


text \<open>
  The process of the scenario before and after \<open>monitorDatabase\<close>, after the timer of the
  first version check has expired, and when it has caught up with the database.
\<close>

definition scenario_start :: "nat sys" where
  "scenario_start =
     \<lparr>isIndexing = False, lastVersion_var = 100, dbChangeDetected = False,
      pendingUpdateTimeout = None, pollInterval = True, fileWatcher = True,
      metadata_obj = scenario_metadata, passes = [], timeouts = [], next_handle = 0,
      clock = 0, world = scenario_world\<rparr>"

definition scenario_boot :: "nat sys" where
  "scenario_boot =
     \<lparr>isIndexing = False, lastVersion_var = 200, dbChangeDetected = False,
      pendingUpdateTimeout = Some 0, pollInterval = True, fileWatcher = True,
      metadata_obj = scenario_metadata\<lparr>lastVersion := 200\<rparr>, passes = [],
      timeouts = [(0, 1000)], next_handle = 1, clock = 0,
      world = scenario_world\<lparr>journal := [ReadMetadataFile, ReadDataVersion]\<rparr>\<rparr>"

definition scenario_fetched :: "nat sys" where
  "scenario_fetched = run scenario_env [Elapse 1000, TimeoutExpired 0] scenario_boot"

definition caught_up :: "nat sys" where
  "caught_up = scenario_start\<lparr>metadata_obj := scenario_metadata\<lparr>lastUpdate := 1500\<rparr>\<rparr>"

text \<open>The same process over a database whose only note is the empty \<open>n2\<close>.\<close>

definition empty_note_start :: "nat sys" where
  "empty_note_start =
     scenario_start\<lparr>world := scenario_world\<lparr>database := scenario_database
       \<lparr>ZSFNOTE := [\<lparr>ZUNIQUEIDENTIFIER = Some ''n2'', ZTITLE = Some [], ZTEXT = Some [],
                      ZMODIFICATIONDATE = 1600, ZTRASHED = 0\<rparr>]\<rparr>\<rparr>\<rparr>"

text \<open>
  Event sequences: the first pass after the start; a second one after \<open>n1\<close> has been
  edited; and a pass during which the database is written and both triggers fire.
\<close>

definition first_pass :: "event list" where
  "first_pass = [Elapse 1000, TimeoutExpired 0, Resume 0, Resume 0]"

definition second_pass :: "event list" where
  "second_pass =
     [DatabaseWritten [\<lparr>ZUNIQUEIDENTIFIER = Some ''n1'', ZTITLE = Some [65], ZTEXT = Some [67],
                        ZMODIFICATIONDATE = 1700, ZTRASHED = 0\<rparr>] 300,
      PollTick, Elapse 1000, TimeoutExpired 1, Resume 0, Resume 0]"

definition busy_interleaving :: "event list" where
  "busy_interleaving =
     [Elapse 1000, TimeoutExpired 0,
      DatabaseWritten [\<lparr>ZUNIQUEIDENTIFIER = Some ''n1'', ZTITLE = Some [65], ZTEXT = Some [67],
                        ZMODIFICATIONDATE = 1700, ZTRASHED = 0\<rparr>] 300,
      FileChange, PollTick, TimeoutExpired 0, Resume 0, Resume 0,
      Elapse 1000, TimeoutExpired 1, PollTick, FileChange]"

lemmas index_defs =
  trim_def js_whitespace_def orEmpty_def obj_set_def obj_delete_def find_position_def
  ntotal_def index_add_def addNoteToIndex_def updateNoteInIndex_def already_indexed_def
  mark_indexed_def perform_def loadVectorIndex_def saveVectorIndex_def processNotes_def

lemmas watch_defs =
  select_modified_def query_modified_notes_def pragma_data_version_def write_metadata_def
  initializeMetadata_def console_def clearTimeout_def setTimeout_def scheduleUpdate_def
  updateIndex_finally_def updateIndex_def updateIndex_resume_def checkDatabaseVersion_def
  setupPolling_def setupFileWatcher_def monitorDatabase_def timeout_expired_def step_def

lemmas scenario_defs =
  scenario_env_def scenario_note_def empty_note_def scenario_metadata_def scenario_database_def
  scenario_world_def scenario_start_def scenario_boot_def scenario_fetched_def caught_up_def
  empty_note_start_def first_pass_def second_pass_def busy_interleaving_def

section \<open>Properties of the index mutator\<close>

lemma map_of_filter_key:
  "map_of (filter (\<lambda>(k, _). P k) m) x = (if P x then map_of m x else None)"
  by (induction m) auto

lemma obj_get_obj_set:
  "obj_get (obj_set p v m) q = (if q = p then Some v else obj_get m q)"
  by (auto simp: obj_get_def obj_set_def map_add_def map_of_filter_key split: option.splits)

lemma obj_get_obj_delete:
  "obj_get (obj_delete p m) q = (if q = p then None else obj_get m q)"
  by (simp add: obj_get_def obj_delete_def map_of_filter_key)

lemma find_position_Some_mem:
  "find_position m noteId = Some p \<Longrightarrow> (p, noteId) \<in> set m"
  by (auto simp: find_position_def find_Some_iff in_set_conv_nth)

lemma find_position_None_iff:
  "find_position m noteId = None \<longleftrightarrow> noteId \<notin> snd ` set m"
  by (auto simp: find_position_def find_None_iff image_iff)

lemma addNoteToIndex_empty:
  "trim (ttl @ [10] @ orEmpty cnt) = [] \<Longrightarrow>
     addNoteToIndex e noteId ttl cnt st = (Inl EmptyNoteContent, st)"
  by (simp add: addNoteToIndex_def)

lemma addNoteToIndex_ok:
  "trim (ttl @ [10] @ orEmpty cnt) \<noteq> [] \<Longrightarrow>
   createEmbedding e (trim (ttl @ [10] @ orEmpty cnt)) = Inr v \<Longrightarrow>
     addNoteToIndex e noteId ttl cnt st =
       (Inr (ntotal st), st\<lparr>vectors := vectors st @ [v],
                            noteIdMap := obj_set (ntotal st) noteId (noteIdMap st)\<rparr>)"
  by (simp add: addNoteToIndex_def Let_def index_add_def ntotal_def)

lemma addNoteToIndex_fail_state:
  "fst (addNoteToIndex e noteId ttl cnt st) = Inl err \<Longrightarrow>
     addNoteToIndex e noteId ttl cnt st = (Inl err, st)"
  by (auto simp: addNoteToIndex_def Let_def split: if_splits sum.splits)

lemma positions_ok_lookup:
  "positions_ok st \<Longrightarrow> (p, v) \<in> set (noteIdMap st) \<Longrightarrow> p < ntotal st \<and> obj_get (noteIdMap st) p = Some v"
  by (auto simp: positions_ok_def list_all_iff obj_get_def strict_sorted_iff
           dest!: split_list intro!: map_of_is_SomeI)

lemma positions_ok_update:
  assumes "positions_ok st"
  shows "positions_ok (st\<lparr>vectors := vectors st @ [v],
            noteIdMap := obj_set (ntotal st) noteId (obj_delete old (noteIdMap st))\<rparr>)"
proof -
  let ?m = "obj_delete old (noteIdMap st)"
  have keys: "\<forall>x \<in> set ?m. fst x < ntotal st"
    using assms by (auto simp: positions_ok_def list_all_iff obj_delete_def)
  have srt: "sorted_wrt (<) (map fst ?m)"
    using assms by (simp add: positions_ok_def obj_delete_def sorted_wrt_map sorted_wrt_filter)
  have lo: "filter (\<lambda>(q, _). q < ntotal st) ?m = ?m"
    using keys by (auto intro!: filter_True)
  have hi: "filter (\<lambda>(q, _). ntotal st < q) ?m = []"
    using keys by (auto simp: filter_empty_conv)
  have "obj_set (ntotal st) noteId ?m = ?m @ [(ntotal st, noteId)]"
    by (simp add: obj_set_def lo hi)
  then show ?thesis
    using keys srt
    by (auto simp: positions_ok_def list_all_iff ntotal_def sorted_wrt_append less_SucI)
qed

text \<open>
  C3, as stated, fails: updating \<open>n1\<close>, which has position 0, with an empty title and an
  empty content removes the entry of position 0, and then throws; nothing is appended and
  the vector count does not increase.
\<close>

theorem empty_update_counterexample:
  "find_position (noteIdMap one_note_index) ''n1'' = Some 0 \<and>
   updateNoteInIndex scenario_env ''n1'' [] (Some []) one_note_index
     = (Inl EmptyNoteContent, \<lparr>vectors = [7], noteIdMap = []\<rparr>) \<and>
   \<not> ntotal one_note_index
       < ntotal (snd (updateNoteInIndex scenario_env ''n1'' [] (Some []) one_note_index))"
  by (simp add: one_note_index_def find_position_def updateNoteInIndex_def addNoteToIndex_def
                obj_delete_def trim_def js_whitespace_def orEmpty_def ntotal_def)

text \<open>
  C3 (amended): an update of an identifier without position in the mapping is the same
  call as \<open>addNoteToIndex\<close>. For an identifier found at position \<open>old\<close> of a consistent
  index, whenever the text to embed is not empty and the embedding collaborator returns a
  vector, \<open>updateNoteInIndex\<close> removes the entry of \<open>old\<close>, appends the vector and records
  the identifier at the position that was the vector count, which is greater than \<open>old\<close>;
  the vector count grows by one and the index stays consistent.
\<close>

theorem tombstone_and_append:
  "(find_position (noteIdMap st) noteId = None \<longrightarrow>
      updateNoteInIndex e noteId ttl cnt st = addNoteToIndex e noteId ttl cnt st) \<and>
   (positions_ok st \<and> find_position (noteIdMap st) noteId = Some old \<and>
    trim (ttl @ [10] @ orEmpty cnt) \<noteq> [] \<and>
    createEmbedding e (trim (ttl @ [10] @ orEmpty cnt)) = Inr v \<longrightarrow>
      (let st' = st\<lparr>vectors := vectors st @ [v],
                     noteIdMap := obj_set (ntotal st) noteId (obj_delete old (noteIdMap st))\<rparr>
       in updateNoteInIndex e noteId ttl cnt st = (Inr (ntotal st), st') \<and>
          obj_get (noteIdMap st) old = Some noteId \<and>
          obj_get (noteIdMap st') old = None \<and>
          old < ntotal st \<and>
          obj_get (noteIdMap st') (ntotal st) = Some noteId \<and>
          ntotal st' = ntotal st + 1 \<and>
          positions_ok st'))"
proof (intro conjI impI)
  assume "find_position (noteIdMap st) noteId = None"
  then show "updateNoteInIndex e noteId ttl cnt st = addNoteToIndex e noteId ttl cnt st"
    by (simp add: updateNoteInIndex_def)
next
  assume h: "positions_ok st \<and> find_position (noteIdMap st) noteId = Some old \<and>
    trim (ttl @ [10] @ orEmpty cnt) \<noteq> [] \<and>
    createEmbedding e (trim (ttl @ [10] @ orEmpty cnt)) = Inr v"
  let ?st1 = "st\<lparr>noteIdMap := obj_delete old (noteIdMap st)\<rparr>"
  have pok: "positions_ok st"
    using h by simp
  have mem: "(old, noteId) \<in> set (noteIdMap st)"
    using h by (simp add: find_position_Some_mem)
  have old: "old < ntotal st" "obj_get (noteIdMap st) old = Some noteId"
    using h mem positions_ok_lookup by blast+
  have call: "updateNoteInIndex e noteId ttl cnt st = addNoteToIndex e noteId ttl cnt ?st1"
    using h by (simp add: updateNoteInIndex_def)
  have "addNoteToIndex e noteId ttl cnt ?st1 =
          (Inr (ntotal ?st1), ?st1\<lparr>vectors := vectors ?st1 @ [v],
              noteIdMap := obj_set (ntotal ?st1) noteId (noteIdMap ?st1)\<rparr>)"
    using h by (intro addNoteToIndex_ok) simp_all
  with call have res: "updateNoteInIndex e noteId ttl cnt st =
      (Inr (ntotal st), st\<lparr>vectors := vectors st @ [v],
           noteIdMap := obj_set (ntotal st) noteId (obj_delete old (noteIdMap st))\<rparr>)"
    by (simp add: ntotal_def)
  show "let st' = st\<lparr>vectors := vectors st @ [v],
                     noteIdMap := obj_set (ntotal st) noteId (obj_delete old (noteIdMap st))\<rparr>
       in updateNoteInIndex e noteId ttl cnt st = (Inr (ntotal st), st') \<and>
          obj_get (noteIdMap st) old = Some noteId \<and>
          obj_get (noteIdMap st') old = None \<and>
          old < ntotal st \<and>
          obj_get (noteIdMap st') (ntotal st) = Some noteId \<and>
          ntotal st' = ntotal st + 1 \<and>
          positions_ok st'"
    using res old pok positions_ok_update[OF pok]
    by (simp add: Let_def obj_get_obj_set obj_get_obj_delete ntotal_def)
qed

theorem tombstone_and_append_witness:
  "find_position (noteIdMap one_note_index) ''n2'' = None \<and>
   updateNoteInIndex scenario_env ''n2'' [65] (Some [66]) one_note_index
     = addNoteToIndex scenario_env ''n2'' [65] (Some [66]) one_note_index \<and>
   positions_ok one_note_index \<and>
   find_position (noteIdMap one_note_index) ''n1'' = Some 0 \<and>
   trim ([65] @ [10] @ orEmpty (Some [66])) \<noteq> [] \<and>
   createEmbedding scenario_env (trim ([65] @ [10] @ orEmpty (Some [66]))) = Inr 3 \<and>
   updateNoteInIndex scenario_env ''n1'' [65] (Some [66]) one_note_index
     = (Inr 1, \<lparr>vectors = [7, 3], noteIdMap = [(1, ''n1'')]\<rparr>)"
  using tombstone_and_append [where st = one_note_index and noteId = "''n2''"
          and e = scenario_env and ttl = "[65]" and cnt = "Some [66]"]
        tombstone_and_append [where st = one_note_index and noteId = "''n1''"
          and e = scenario_env and ttl = "[65]" and cnt = "Some [66]" and old = 0 and v = 3]
  by (simp add: one_note_index_def scenario_env_def find_position_def positions_ok_def
                ntotal_def trim_def js_whitespace_def orEmpty_def obj_set_def obj_delete_def)

lemma find_position_unique:
  "\<forall>q. (q, noteId) \<in> set m \<longrightarrow> q = old \<Longrightarrow> find_position (obj_delete old m) noteId = None"
  by (auto simp: find_position_None_iff obj_delete_def)

lemma find_position_lowest:
  assumes "sorted_wrt (<) (map fst m)" and "find_position m noteId = Some old"
      and "(q, noteId) \<in> set m"
  shows "old \<le> q"
proof -
  obtain x where x: "List.find (\<lambda>(_, i). i = noteId) m = Some x" and old: "old = fst x"
    using assms(2) by (auto simp: find_position_def)
  have "\<exists>i<length m. snd (m ! i) = noteId \<and> x = m ! i \<and> (\<forall>j<i. snd (m ! j) \<noteq> noteId)"
    using x unfolding find_Some_iff by (simp add: split_beta)
  then obtain i where i: "i < length m" "snd (m ! i) = noteId" "old = fst (m ! i)"
      and first: "\<forall>j<i. snd (m ! j) \<noteq> noteId"
    using old by blast
  obtain j where j: "j < length m" "m ! j = (q, noteId)"
    using assms(3) by (auto simp: in_set_conv_nth)
  have "\<not> j < i"
    using first j by auto
  then consider "j = i" | "i < j" by linarith
  then show ?thesis
  proof cases
    case 1
    then show ?thesis using i j by simp
  next
    case 2
    then have "map fst m ! i < map fst m ! j"
      using assms(1) j(1) by (simp add: sorted_wrt_iff_nth_less)
    then show ?thesis
      using i j 2 by simp
  qed
qed

text \<open>
  C10, as stated, fails where an identifier has two positions (which is what the first
  pass over a freshly built index leaves behind when there is no metadata file yet, see
  \<open>twice_indexed_reachable\<close> and \<open>first_pass_indexes_again\<close> below):
  the failed update removes the entry of the lower position only, and the document still
  has a live position.
\<close>

theorem twice_indexed_counterexample:
  "find_position (noteIdMap twice_indexed) ''n1'' = Some 0 \<and>
   updateNoteInIndex scenario_env ''n1'' [] (Some []) twice_indexed
     = (Inl EmptyNoteContent, \<lparr>vectors = [7, 3], noteIdMap = [(1, ''n1'')]\<rparr>) \<and>
   find_position
     (noteIdMap (snd (updateNoteInIndex scenario_env ''n1'' [] (Some []) twice_indexed))) ''n1''
     = Some 1"
  by (simp add: twice_indexed_def find_position_def updateNoteInIndex_def addNoteToIndex_def
                obj_delete_def trim_def js_whitespace_def orEmpty_def)

lemma twice_indexed_reachable:
  "processLoop scenario_env 0 [scenario_note]
     (one_note_index, \<lparr>lastUpdate = 0, indexedNotes = Some Map.empty, lastVersion = 0\<rparr>, 0)
   = (twice_indexed, \<lparr>lastUpdate = 0, indexedNotes = Some [''n1'' \<mapsto> 5000], lastVersion = 0\<rparr>, 1)"
  by (simp add: scenario_note_def one_note_index_def twice_indexed_def scenario_env_def
        already_indexed_def mark_indexed_def addNoteToIndex_def index_add_def ntotal_def
        obj_set_def trim_def js_whitespace_def orEmpty_def)

lemma first_pass_indexes_again:
  "(case monitorDatabase (scenario_world\<lparr>metadata_file := None\<rparr>) of
      Inl err \<Rightarrow> None
    | Inr s \<Rightarrow> Some (index_file (world (run scenario_env first_pass s)),
                     map_file (world (run scenario_env first_pass s))))
   = Some (Some (vectors twice_indexed), Some (noteIdMap twice_indexed))"
  by (simp add: twice_indexed_def scenario_defs watch_defs index_defs Let_def)

text \<open>
  C10 (amended): for an identifier found at position \<open>old\<close>, if the re-add step fails,
  \<open>updateNoteInIndex\<close> throws the same error and leaves the index as it was but for the
  entry of \<open>old\<close>, which was there before and is gone; the document is left without any
  position when \<open>old\<close> was its only one. In a consistent index \<open>old\<close> held the
  identifier and is the lowest of its positions.
\<close>

theorem update_not_atomic_on_error:
  assumes "find_position (noteIdMap st) noteId = Some old"
      and "fst (addNoteToIndex e noteId ttl cnt (st\<lparr>noteIdMap := obj_delete old (noteIdMap st)\<rparr>))
             = Inl err"
  shows "updateNoteInIndex e noteId ttl cnt st
           = (Inl err, st\<lparr>noteIdMap := obj_delete old (noteIdMap st)\<rparr>) \<and>
         (old, noteId) \<in> set (noteIdMap st) \<and>
         obj_get (noteIdMap (snd (updateNoteInIndex e noteId ttl cnt st))) old = None \<and>
         ((\<forall>q. (q, noteId) \<in> set (noteIdMap st) \<longrightarrow> q = old) \<longrightarrow>
            find_position (noteIdMap (snd (updateNoteInIndex e noteId ttl cnt st))) noteId = None) \<and>
         (positions_ok st \<longrightarrow>
            obj_get (noteIdMap st) old = Some noteId \<and>
            (\<forall>q. (q, noteId) \<in> set (noteIdMap st) \<longrightarrow> old \<le> q))"
proof -
  have "updateNoteInIndex e noteId ttl cnt st
          = addNoteToIndex e noteId ttl cnt (st\<lparr>noteIdMap := obj_delete old (noteIdMap st)\<rparr>)"
    using assms(1) by (simp add: updateNoteInIndex_def)
  then have res: "updateNoteInIndex e noteId ttl cnt st
          = (Inl err, st\<lparr>noteIdMap := obj_delete old (noteIdMap st)\<rparr>)"
    using addNoteToIndex_fail_state[OF assms(2)] by simp
  have gone: "obj_get (noteIdMap (snd (updateNoteInIndex e noteId ttl cnt st))) old = None"
    by (simp add: res obj_get_obj_delete)
  have unique: "(\<forall>q. (q, noteId) \<in> set (noteIdMap st) \<longrightarrow> q = old) \<longrightarrow>
      find_position (noteIdMap (snd (updateNoteInIndex e noteId ttl cnt st))) noteId = None"
  proof
    assume "\<forall>q. (q, noteId) \<in> set (noteIdMap st) \<longrightarrow> q = old"
    then have "find_position (obj_delete old (noteIdMap st)) noteId = None"
      by (rule find_position_unique)
    then show "find_position (noteIdMap (snd (updateNoteInIndex e noteId ttl cnt st))) noteId = None"
      by (simp add: res)
  qed
  have lowest: "positions_ok st \<longrightarrow>
            obj_get (noteIdMap st) old = Some noteId \<and>
            (\<forall>q. (q, noteId) \<in> set (noteIdMap st) \<longrightarrow> old \<le> q)"
  proof (intro impI conjI allI)
    assume ok: "positions_ok st"
    show "obj_get (noteIdMap st) old = Some noteId"
      using positions_ok_lookup[OF ok find_position_Some_mem[OF assms(1)]] by simp
    fix q
    assume "(q, noteId) \<in> set (noteIdMap st)"
    then show "old \<le> q"
      using ok assms(1) by (intro find_position_lowest[of "noteIdMap st" noteId]) (simp_all add: positions_ok_def)
  qed
  from res find_position_Some_mem[OF assms(1)] gone unique lowest show ?thesis
    by (intro conjI)
qed

theorem update_not_atomic_on_error_witness:
  "find_position (noteIdMap one_note_index) ''n1'' = Some 0 \<and>
   fst (addNoteToIndex scenario_env ''n1'' [] (Some [])
          (one_note_index\<lparr>noteIdMap := obj_delete 0 (noteIdMap one_note_index)\<rparr>))
     = Inl EmptyNoteContent \<and>
   positions_ok one_note_index \<and>
   updateNoteInIndex scenario_env ''n1'' [] (Some []) one_note_index
     = (Inl EmptyNoteContent, \<lparr>vectors = [7], noteIdMap = []\<rparr>) \<and>
   find_position
     (noteIdMap (snd (updateNoteInIndex scenario_env ''n1'' [] (Some []) one_note_index))) ''n1''
     = None \<and>
   find_position (noteIdMap twice_indexed) ''n1'' = Some 0 \<and>
   fst (addNoteToIndex scenario_env ''n1'' [] (Some [])
          (twice_indexed\<lparr>noteIdMap := obj_delete 0 (noteIdMap twice_indexed)\<rparr>))
     = Inl EmptyNoteContent \<and>
   positions_ok twice_indexed \<and>
   obj_get (noteIdMap twice_indexed) 0 = Some ''n1'' \<and>
   list_all (\<lambda>(q, noteId). 0 \<le> q) (noteIdMap twice_indexed) = True"
  using update_not_atomic_on_error [where st = one_note_index and noteId = "''n1''"
          and e = scenario_env and ttl = "[]" and cnt = "Some []" and old = 0
          and err = EmptyNoteContent]
        update_not_atomic_on_error [where st = twice_indexed and noteId = "''n1''"
          and e = scenario_env and ttl = "[]" and cnt = "Some []" and old = 0
          and err = EmptyNoteContent]
  by (simp add: one_note_index_def twice_indexed_def find_position_def addNoteToIndex_def
                obj_delete_def obj_get_def positions_ok_def ntotal_def
                trim_def js_whitespace_def orEmpty_def)

lemma processNotes_returns:
  assumes "ns \<noteq> []" and "initEmbedder e = Inr b"
      and "fst (loadVectorIndex w) = Inr loaded" and "index_writable w" and "map_writable w"
  shows "processNotes e ns md w =
           (case processLoop e 0 ns (loaded, md, 0) of
              (st', md', processedCount) \<Rightarrow>
                (Inr processedCount, md',
                 w\<lparr>index_file := Some (vectors st'), map_file := Some (noteIdMap st'),
                   journal := journal w @ [ReadIndexFile, ReadMapFile, WriteIndexFile, WriteMapFile]\<rparr>))"
  using assms
  by (auto simp: processNotes_def loadVectorIndex_def saveVectorIndex_def perform_def Let_def
           split: option.splits prod.splits)

lemma processLoop_failed_note:
  assumes "note_id n = Some noteId" and "noteId \<noteq> []"
      and "(if already_indexed md noteId
            then updateNoteInIndex e noteId (orEmpty (title n)) (Some (orEmpty (content n))) st
            else addNoteToIndex e noteId (orEmpty (title n)) (Some (orEmpty (content n))) st)
           = (Inl err, st')"
  shows "processLoop e k (n # rest) (st, md, processedCount)
           = processLoop e (Suc k) rest (st', md, processedCount)"
  using assms by simp

lemma updateNoteInIndex_empty:
  assumes "trim (ttl @ [10] @ orEmpty cnt) = []"
  shows "updateNoteInIndex e noteId ttl cnt st
           = (Inl EmptyNoteContent,
              case find_position (noteIdMap st) noteId of
                None \<Rightarrow> st
              | Some old \<Rightarrow> st\<lparr>noteIdMap := obj_delete old (noteIdMap st)\<rparr>)"
  by (simp add: updateNoteInIndex_def addNoteToIndex_empty[OF assms] split: option.splits)

text \<open>
  C5: when title, newline and content trim to the empty string, \<open>addNoteToIndex\<close> fails
  with the empty-content error and leaves index and mapping as they were. In the loop of
  \<open>processNotes\<close> such a note does not stop the batch: the loop goes on with the remaining
  notes, with the metadata (so also \<open>indexedNotes\<close>) and the processed count unchanged,
  no vector appended and no entry added to the mapping; and what \<open>processNotes\<close> returns
  for a batch that begins with such a note is the count, and the metadata, of the loop
  over the remaining notes.
\<close>

theorem empty_content_is_per_document:
  "(trim (ttl @ [10] @ orEmpty cnt) = [] \<longrightarrow>
      addNoteToIndex e noteId ttl cnt st = (Inl EmptyNoteContent, st)) \<and>
   (note_id n = Some noteId \<and> noteId \<noteq> [] \<and>
    trim (orEmpty (title n) @ [10] @ orEmpty (content n)) = [] \<longrightarrow>
      (let st' = (if already_indexed md noteId
                  then snd (updateNoteInIndex e noteId (orEmpty (title n))
                              (Some (orEmpty (content n))) st)
                  else st)
       in processLoop e k (n # rest) (st, md, processedCount)
            = processLoop e (Suc k) rest (st', md, processedCount) \<and>
          vectors st' = vectors st \<and>
          set (noteIdMap st') \<subseteq> set (noteIdMap st) \<and>
          (initEmbedder e = Inr b \<and> fst (loadVectorIndex w) = Inr st \<and>
           index_writable w \<and> map_writable w \<longrightarrow>
             fst (processNotes e (n # rest) md w)
               = Inr (snd (snd (processLoop e 1 rest (st', md, 0)))) \<and>
             fst (snd (processNotes e (n # rest) md w))
               = fst (snd (processLoop e 1 rest (st', md, 0))))))"
proof (intro conjI impI)
  assume "trim (ttl @ [10] @ orEmpty cnt) = []"
  then show "addNoteToIndex e noteId ttl cnt st = (Inl EmptyNoteContent, st)"
    by (rule addNoteToIndex_empty)
next
  assume h: "note_id n = Some noteId \<and> noteId \<noteq> [] \<and>
    trim (orEmpty (title n) @ [10] @ orEmpty (content n)) = []"
  define t c where "t = orEmpty (title n)" and "c = Some (orEmpty (content n))"
  define st1 where "st1 = (case find_position (noteIdMap st) noteId of
                None \<Rightarrow> st
              | Some old \<Rightarrow> st\<lparr>noteIdMap := obj_delete old (noteIdMap st)\<rparr>)"
  define st' where "st' = (if already_indexed md noteId then st1 else st)"
  have empty: "trim (t @ [10] @ orEmpty c) = []"
    using h by (simp add: orEmpty_def t_def c_def)
  have add: "addNoteToIndex e noteId t c st = (Inl EmptyNoteContent, st)"
    using empty by (rule addNoteToIndex_empty)
  have upd: "updateNoteInIndex e noteId t c st = (Inl EmptyNoteContent, st1)"
    unfolding st1_def using empty by (rule updateNoteInIndex_empty)
  have vec: "vectors st' = vectors st"
    by (simp add: st'_def st1_def split: option.splits)
  have sub: "set (noteIdMap st') \<subseteq> set (noteIdMap st)"
    by (auto simp: st'_def st1_def obj_delete_def split: option.splits)
  have loop: "processLoop e j (n # rest) (st, md, p) = processLoop e (Suc j) rest (st', md, p)" for j p
    unfolding st'_def
    by (rule processLoop_failed_note[where noteId = noteId and err = EmptyNoteContent])
       (use h add upd in \<open>simp_all add: t_def c_def\<close>)
  have batch: "fst (processNotes e (n # rest) md w)
               = Inr (snd (snd (processLoop e 1 rest (st', md, 0)))) \<and>
             fst (snd (processNotes e (n # rest) md w))
               = fst (snd (processLoop e 1 rest (st', md, 0)))"
    if "initEmbedder e = Inr b \<and> fst (loadVectorIndex w) = Inr st \<and>
        index_writable w \<and> map_writable w"
  proof -
    have "processNotes e (n # rest) md w =
           (case processLoop e 0 (n # rest) (st, md, 0) of
              (st2, md2, c2) \<Rightarrow>
                (Inr c2, md2,
                 w\<lparr>index_file := Some (vectors st2), map_file := Some (noteIdMap st2),
                   journal := journal w @ [ReadIndexFile, ReadMapFile, WriteIndexFile, WriteMapFile]\<rparr>))"
      using that by (intro processNotes_returns[where b = b]) simp_all
    then show ?thesis
      unfolding loop by (simp add: case_prod_beta)
  qed
  have st': "(if already_indexed md noteId
                  then snd (updateNoteInIndex e noteId (orEmpty (title n))
                              (Some (orEmpty (content n))) st)
                  else st) = st'"
    using upd by (simp add: st'_def t_def c_def)
  show "let st' = (if already_indexed md noteId
                  then snd (updateNoteInIndex e noteId (orEmpty (title n))
                              (Some (orEmpty (content n))) st)
                  else st)
       in processLoop e k (n # rest) (st, md, processedCount)
            = processLoop e (Suc k) rest (st', md, processedCount) \<and>
          vectors st' = vectors st \<and>
          set (noteIdMap st') \<subseteq> set (noteIdMap st) \<and>
          (initEmbedder e = Inr b \<and> fst (loadVectorIndex w) = Inr st \<and>
           index_writable w \<and> map_writable w \<longrightarrow>
             fst (processNotes e (n # rest) md w)
               = Inr (snd (snd (processLoop e 1 rest (st', md, 0)))) \<and>
             fst (snd (processNotes e (n # rest) md w))
               = fst (snd (processLoop e 1 rest (st', md, 0))))"
    unfolding Let_def st' using loop vec sub batch by blast
qed

theorem empty_content_is_per_document_witness:
  "trim ([] @ [10] @ orEmpty (Some [])) = [] \<and>
   addNoteToIndex scenario_env ''n2'' [] (Some []) one_note_index
     = (Inl EmptyNoteContent, one_note_index) \<and>
   note_id empty_note = Some ''n2'' \<and> ''n2'' \<noteq> [] \<and>
   trim (orEmpty (title empty_note) @ [10] @ orEmpty (content empty_note)) = [] \<and>
   processLoop scenario_env 0 [empty_note, scenario_note] (one_note_index, scenario_metadata, 0)
     = processLoop scenario_env 1 [scenario_note] (one_note_index, scenario_metadata, 0) \<and>
   fst (processLoop scenario_env 0 [empty_note, scenario_note] (one_note_index, scenario_metadata, 0))
     = \<lparr>vectors = [7, 3], noteIdMap = [(1, ''n1'')]\<rparr> \<and>
   initEmbedder scenario_env = Inr True \<and>
   fst (loadVectorIndex scenario_world) = Inr one_note_index \<and>
   index_writable scenario_world \<and> map_writable scenario_world \<and>
   fst (processNotes scenario_env [empty_note, scenario_note] scenario_metadata scenario_world)
     = Inr 1 \<and>
   already_indexed
     (fst (snd (processNotes scenario_env [empty_note, scenario_note] scenario_metadata
                  scenario_world))) ''n2'' = False"
  using empty_content_is_per_document [where ttl = "[]" and cnt = "Some []" and e = scenario_env
          and noteId = "''n2''" and st = one_note_index and n = empty_note
          and md = scenario_metadata and k = 0 and rest = "[scenario_note]"
          and processedCount = 0 and b = True and w = scenario_world]
  by (simp add: scenario_defs index_defs Let_def one_note_index_def)

section \<open>Properties of loading\<close>

text \<open>
  C9: when the index artifact or the mapping artifact is absent or unreadable,
  \<open>loadVectorIndex\<close> fails with its own error, which is not the error of saving, of an
  empty note or of file access; and an index that it returns is the one that is stored.
\<close>

theorem loadVectorIndex_missing_index:
  "(index_file w = None \<or> map_file w = None \<longrightarrow>
      fst (loadVectorIndex w) = Inl FailedToLoadVectorIndex) \<and>
   FailedToLoadVectorIndex \<notin> {FailedToSaveVectorIndex, EmptyNoteContent, FileError, DatabaseError} \<and>
   (fst (loadVectorIndex w) = Inr st \<longrightarrow>
      index_file w = Some (vectors st) \<and> map_file w = Some (noteIdMap st))"
  by (auto simp: loadVectorIndex_def perform_def Let_def split: option.splits)

theorem loadVectorIndex_missing_index_witness:
  "map_file (scenario_world\<lparr>map_file := None\<rparr>) = None \<and>
   fst (loadVectorIndex (scenario_world\<lparr>map_file := None\<rparr>)) = Inl FailedToLoadVectorIndex \<and>
   fst (loadVectorIndex scenario_world) = Inr one_note_index \<and>
   index_file scenario_world = Some (vectors one_note_index) \<and>
   map_file scenario_world = Some (noteIdMap one_note_index)"
  using loadVectorIndex_missing_index [where w = "scenario_world\<lparr>map_file := None\<rparr>"]
        loadVectorIndex_missing_index [where w = scenario_world and st = one_note_index]
  by (simp add: scenario_world_def one_note_index_def loadVectorIndex_def perform_def)

section \<open>The synchronization pass, step by step\<close>

lemma updateIndex_busy:
  "isIndexing s \<Longrightarrow> updateIndex s = console IndexingAlreadyInProgress s"
  by (simp add: updateIndex_def)

lemma updateIndex_query_throws:
  assumes "\<not> isIndexing s" and "query_throws (database (world s))"
  shows "updateIndex s =
           s\<lparr>dbChangeDetected := False,
             world := (world s)\<lparr>journal := journal (world s) @
               [Console CheckingForNoteUpdates, QueryModifiedNotes (lastUpdate (metadata_obj s)),
                Console (ErrorUpdatingIndex DatabaseError)]\<rparr>\<rparr>"
  using assms
  by (simp add: updateIndex_def query_modified_notes_def console_def perform_def
                updateIndex_finally_def Let_def)

lemma updateIndex_nothing_modified:
  assumes "\<not> isIndexing s" and "\<not> query_throws (database (world s))"
      and "select_modified (lastUpdate (metadata_obj s)) (ZSFNOTE (database (world s))) = []"
  shows "updateIndex s =
           s\<lparr>dbChangeDetected := False,
             world := (world s)\<lparr>journal := journal (world s) @
               [Console CheckingForNoteUpdates, QueryModifiedNotes (lastUpdate (metadata_obj s)),
                Console NoModifiedNotesFound]\<rparr>\<rparr>"
  using assms
  by (simp add: updateIndex_def query_modified_notes_def console_def perform_def
                updateIndex_finally_def Let_def)

lemma updateIndex_starts_pass:
  assumes "\<not> isIndexing s" and "\<not> query_throws (database (world s))"
      and "select_modified (lastUpdate (metadata_obj s)) (ZSFNOTE (database (world s))) = modifiedNotes"
      and "modifiedNotes \<noteq> []"
  shows "updateIndex s =
           s\<lparr>isIndexing := True, dbChangeDetected := False,
             passes := passes s @ [AwaitProcessNotes modifiedNotes],
             world := (world s)\<lparr>journal := journal (world s) @
               [Console CheckingForNoteUpdates, QueryModifiedNotes (lastUpdate (metadata_obj s)),
                Console (FoundNotesToUpdate (length modifiedNotes))]\<rparr>\<rparr>"
  using assms
  by (simp add: updateIndex_def query_modified_notes_def console_def perform_def Let_def)

lemma select_modified_none:
  assumes "\<forall>r \<in> set table. ZMODIFICATIONDATE r \<le> since"
  shows "select_modified since table = []"
proof -
  have "filter (\<lambda>r. ZTRASHED r = 0 \<and> since < ZMODIFICATIONDATE r) table = []"
    using assms by (auto simp: filter_empty_conv)
  then show ?thesis
    by (simp add: select_modified_def)
qed


lemma scheduleUpdate_frame:
  "isIndexing (scheduleUpdate s) = isIndexing s"
  "passes (scheduleUpdate s) = passes s"
  "metadata_obj (scheduleUpdate s) = metadata_obj s"
  "world (scheduleUpdate s) = world s"
  "clock (scheduleUpdate s) = clock s"
  "dbChangeDetected (scheduleUpdate s) = dbChangeDetected s"
  by (simp_all add: scheduleUpdate_def setTimeout_def clearTimeout_def split: option.splits)

lemma scheduleUpdate_timers:
  assumes "timer_inv s"
  shows "timeouts (scheduleUpdate s) = [(next_handle s, clock s + 1000)]"
    and "pendingUpdateTimeout (scheduleUpdate s) = Some (next_handle s)"
    and "next_handle (scheduleUpdate s) = Suc (next_handle s)"
proof -
  have "filter (\<lambda>(h', _). h' \<noteq> h) (timeouts s) = []" if "pendingUpdateTimeout s = Some h" for h
    using assms that by (auto simp: timer_inv_def list_all_iff filter_empty_conv)
  moreover have "timeouts s = []" if "pendingUpdateTimeout s = None"
    using assms that by (cases "timeouts s") (auto simp: timer_inv_def)
  ultimately show "timeouts (scheduleUpdate s) = [(next_handle s, clock s + 1000)]"
    by (simp add: scheduleUpdate_def setTimeout_def clearTimeout_def split: option.splits)
  show "pendingUpdateTimeout (scheduleUpdate s) = Some (next_handle s)"
    by (simp add: scheduleUpdate_def setTimeout_def clearTimeout_def split: option.splits)
  show "next_handle (scheduleUpdate s) = Suc (next_handle s)"
    by (simp add: scheduleUpdate_def setTimeout_def clearTimeout_def split: option.splits)
qed

lemma timer_inv_scheduleUpdate: "timer_inv s \<Longrightarrow> timer_inv (scheduleUpdate s)"
  by (simp add: timer_inv_def[of "scheduleUpdate s"] scheduleUpdate_timers)

lemma timer_inv_cong:
  "timeouts s' = timeouts s \<Longrightarrow> pendingUpdateTimeout s' = pendingUpdateTimeout s \<Longrightarrow>
     timer_inv s' = timer_inv s"
  by (simp add: timer_inv_def)

lemma pass_inv_cong:
  "passes s' = passes s \<Longrightarrow> isIndexing s' = isIndexing s \<Longrightarrow> pass_inv s' = pass_inv s"
  by (simp add: pass_inv_def)

lemma updateIndex_finally_frame:
  "passes (updateIndex_finally s) = passes s"
  "isIndexing (updateIndex_finally s) = False"
  "metadata_obj (updateIndex_finally s) = metadata_obj s"
  by (simp_all add: updateIndex_finally_def Let_def scheduleUpdate_frame console_def)

lemma timer_inv_finally: "timer_inv s \<Longrightarrow> timer_inv (updateIndex_finally s)"
proof -
  assume a: "timer_inv s"
  have "timer_inv (console SchedulingFollowUp (s\<lparr>isIndexing := False\<rparr>))"
    using a by (simp add: timer_inv_def console_def)
  then show ?thesis
    using a by (simp add: updateIndex_finally_def Let_def timer_inv_scheduleUpdate)
       (simp add: timer_inv_def)
qed

lemma checkDatabaseVersion_frame:
  "passes (snd (checkDatabaseVersion s)) = passes s"
  "isIndexing (snd (checkDatabaseVersion s)) = isIndexing s"
  by (simp_all add: checkDatabaseVersion_def pragma_data_version_def Let_def scheduleUpdate_frame)

lemma timer_inv_checkDatabaseVersion:
  "timer_inv s \<Longrightarrow> timer_inv (snd (checkDatabaseVersion s))"
proof -
  assume a: "timer_inv s"
  let ?v = "data_version (database (world s))"
  have "timer_inv (s\<lparr>world := perform ReadDataVersion (world s), lastVersion_var := ?v,
                     metadata_obj := (metadata_obj s)\<lparr>lastVersion := ?v\<rparr>\<rparr>)"
    using a by (simp add: timer_inv_def)
  from timer_inv_scheduleUpdate[OF this] a show ?thesis
    by (simp add: checkDatabaseVersion_def pragma_data_version_def Let_def perform_def)
       (simp add: timer_inv_def)
qed

lemma updateIndex_timers:
  "timeouts (updateIndex s) = timeouts s"
  "pendingUpdateTimeout (updateIndex s) = pendingUpdateTimeout s"
  "next_handle (updateIndex s) = next_handle s"
  "clock (updateIndex s) = clock s"
  by (simp_all add: updateIndex_def query_modified_notes_def console_def perform_def
                    updateIndex_finally_def Let_def)

lemma timer_inv_updateIndex: "timer_inv s \<Longrightarrow> timer_inv (updateIndex s)"
  by (simp add: timer_inv_def updateIndex_timers)

lemma pass_inv_updateIndex: "pass_inv s \<Longrightarrow> pass_inv (updateIndex s)"
  by (auto simp: pass_inv_def updateIndex_def query_modified_notes_def console_def perform_def
                 updateIndex_finally_def Let_def split: if_splits)

text \<open>The three ways in which a continuation leaves the state.\<close>

lemma updateIndex_resume_shape:
  "updateIndex_resume e i s = s \<or>
   (\<exists>md w. i < length (passes s) \<and>
      updateIndex_resume e i s =
        updateIndex_finally (s\<lparr>metadata_obj := md,
           passes := take i (passes s) @ drop (Suc i) (passes s), world := w\<rparr>)) \<or>
   (\<exists>p md w. i < length (passes s) \<and>
      updateIndex_resume e i s =
        s\<lparr>metadata_obj := md, world := w, passes := (passes s)[i := p]\<rparr>)"
proof (cases "length (passes s) \<le> i")
  case True
  then show ?thesis by (simp add: updateIndex_resume_def)
next
  case False
  then have i: "i < length (passes s)" by simp
  show ?thesis
  proof (cases "passes s ! i")
    case (AwaitProcessNotes modifiedNotes)
    obtain r md w where pn: "processNotes e modifiedNotes (metadata_obj s) (world s) = (r, md, w)"
      by (cases "processNotes e modifiedNotes (metadata_obj s) (world s)") auto
    show ?thesis
    proof (cases r)
      case (Inl err)
      then have "updateIndex_resume e i s =
          updateIndex_finally (s\<lparr>metadata_obj := md,
             passes := take i (passes s) @ drop (Suc i) (passes s),
             world := perform (Console (ErrorUpdatingIndex err)) w\<rparr>)"
        using i AwaitProcessNotes pn by (simp add: updateIndex_resume_def console_def)
      with i show ?thesis
        by blast
    next
      case (Inr processedCount)
      then have "\<exists>p md' w'. updateIndex_resume e i s =
          s\<lparr>metadata_obj := md', world := w', passes := (passes s)[i := p]\<rparr>"
        using i AwaitProcessNotes pn
        by (auto simp: updateIndex_resume_def Let_def split: prod.splits)
      with i show ?thesis
        by blast
    qed
  next
    case (AwaitWriteMetadata processedCount outcome)
    define w where "w = (case outcome of
        None \<Rightarrow> perform (Console (IndexUpdateCompleted processedCount))
                  (perform (Console IndexMetadataUpdated) (world s))
      | Some err \<Rightarrow> perform (Console (ErrorUpdatingIndex err)) (world s))"
    have "updateIndex_resume e i s =
            updateIndex_finally (s\<lparr>metadata_obj := metadata_obj s,
               passes := take i (passes s) @ drop (Suc i) (passes s), world := w\<rparr>)"
      using i AwaitWriteMetadata
      by (simp add: updateIndex_resume_def Let_def w_def console_def split: option.splits)
    with i show ?thesis
      by blast
  qed
qed

lemma timer_inv_resume: "timer_inv s \<Longrightarrow> timer_inv (updateIndex_resume e i s)"
proof -
  assume a: "timer_inv s"
  have c: "timer_inv (s\<lparr>metadata_obj := md, passes := ps, world := w\<rparr>)" for md w ps
    using a by (simp add: timer_inv_def)
  have d: "timer_inv (s\<lparr>metadata_obj := md, world := w, passes := ps\<rparr>)" for md w ps
    using a by (simp add: timer_inv_def)
  show ?thesis
    using updateIndex_resume_shape[of e i s] a d timer_inv_finally[OF c]
    by (elim disjE exE conjE) simp_all
qed

lemma pass_inv_resume: "pass_inv s \<Longrightarrow> pass_inv (updateIndex_resume e i s)"
proof -
  assume a: "pass_inv s"
  have len: "i < length (passes s) \<Longrightarrow> isIndexing s \<and> length (passes s) = 1 \<and> i = 0"
    using a by (auto simp: pass_inv_def split: if_splits)
  have b: "pass_inv (updateIndex_finally (s\<lparr>metadata_obj := md,
             passes := take i (passes s) @ drop (Suc i) (passes s), world := w\<rparr>))"
    if "i < length (passes s)" for md w
    using len[OF that] by (simp add: pass_inv_def updateIndex_finally_frame)
  have c: "pass_inv (s\<lparr>metadata_obj := md, world := w, passes := (passes s)[i := p]\<rparr>)" for md w p
    using a by (simp add: pass_inv_def)
  show ?thesis
    using updateIndex_resume_shape[of e i s] a b c by auto
qed

lemma timer_inv_timeout_expired: "timer_inv s \<Longrightarrow> timer_inv (timeout_expired h s)"
proof -
  assume a: "timer_inv s"
  have "timer_inv ((clearTimeout h s)\<lparr>pendingUpdateTimeout := None\<rparr>)"
    if "map_of (timeouts s) h = Some due" for due
  proof -
    have "(h, due) \<in> set (timeouts s)" using that by (rule map_of_SomeD)
    then have "timeouts s = [(h, due)]"
      using a by (cases "timeouts s") (auto simp: timer_inv_def)
    then show ?thesis
      by (simp add: timer_inv_def clearTimeout_def)
  qed
  then show ?thesis
    using a by (auto simp: timeout_expired_def intro: timer_inv_updateIndex split: option.splits)
qed

lemma pass_inv_timeout_expired: "pass_inv s \<Longrightarrow> pass_inv (timeout_expired h s)"
proof -
  assume a: "pass_inv s"
  then have "pass_inv ((clearTimeout h s)\<lparr>pendingUpdateTimeout := None\<rparr>)"
    by (simp add: pass_inv_def clearTimeout_def)
  then show ?thesis
    using a by (auto simp: timeout_expired_def intro: pass_inv_updateIndex split: option.splits)
qed

lemma pass_inv_step: "pass_inv s \<Longrightarrow> pass_inv (step e ev s)"
proof (cases ev)
  case FileChange
  assume a: "pass_inv s"
  have "pass_inv (snd (checkDatabaseVersion (s\<lparr>dbChangeDetected := True\<rparr>)))"
    using a by (simp add: pass_inv_def checkDatabaseVersion_frame)
  moreover have "pass_inv (s\<lparr>dbChangeDetected := True\<rparr>)"
    using a by (simp add: pass_inv_def)
  ultimately show ?thesis
    using a FileChange by (simp add: step_def Let_def)
next
  case PollTick
  assume a: "pass_inv s"
  then have "pass_inv (snd (checkDatabaseVersion s))"
    by (simp add: pass_inv_def checkDatabaseVersion_frame)
  then show ?thesis
    using a PollTick by (simp add: step_def)
qed (simp_all add: step_def pass_inv_timeout_expired pass_inv_resume, simp_all add: pass_inv_def setupPolling_def)

lemma timer_inv_step: "timer_inv s \<Longrightarrow> timer_inv (step e ev s)"
proof (cases ev)
  case FileChange
  assume a: "timer_inv s"
  then have b: "timer_inv (s\<lparr>dbChangeDetected := True\<rparr>)"
    by (simp add: timer_inv_def)
  show ?thesis
    using a b timer_inv_checkDatabaseVersion[OF b] FileChange by (simp add: step_def Let_def)
next
  case PollTick
  assume a: "timer_inv s"
  then show ?thesis
    using timer_inv_checkDatabaseVersion[OF a] PollTick by (simp add: step_def)
qed (simp_all add: step_def timer_inv_timeout_expired timer_inv_resume, simp_all add: timer_inv_def setupPolling_def)

lemma pass_inv_run: "pass_inv s \<Longrightarrow> pass_inv (run e evs s)"
  by (induction evs arbitrary: s) (simp_all add: pass_inv_step)

lemma timer_inv_run: "timer_inv s \<Longrightarrow> timer_inv (run e evs s)"
  by (induction evs arbitrary: s) (simp_all add: timer_inv_step)

lemma monitorDatabase_inv:
  assumes "monitorDatabase w = Inr booted"
  shows "pass_inv booted" and "timer_inv booted"
proof -
  obtain md w1 where booted: "booted = snd (checkDatabaseVersion (setupPolling (snd (setupFileWatcher
      \<lparr>isIndexing = False, lastVersion_var = lastVersion md,
        dbChangeDetected = False, pendingUpdateTimeout = None,
        pollInterval = False, fileWatcher = False, metadata_obj = md,
        passes = [], timeouts = [], next_handle = 0, clock = 0, world = w1\<rparr>))))"
    using assms by (auto simp: monitorDatabase_def Let_def split: prod.splits sum.splits if_splits)
  show "pass_inv booted"
    unfolding booted by (simp add: pass_inv_def checkDatabaseVersion_frame setupPolling_def setupFileWatcher_def)
  show "timer_inv booted"
    unfolding booted by (rule timer_inv_checkDatabaseVersion) (simp add: timer_inv_def setupPolling_def setupFileWatcher_def)
qed


lemma mark_indexed_frame:
  "lastUpdate (mark_indexed md noteId t) = lastUpdate md"
  "lastVersion (mark_indexed md noteId t) = lastVersion md"
  by (simp_all add: mark_indexed_def split: option.splits)

lemma processLoop_frame:
  "processLoop e k ns (st, md, c) = (st', md', c') \<Longrightarrow>
     lastUpdate md' = lastUpdate md \<and> lastVersion md' = lastVersion md"
proof (induction ns arbitrary: k st md c)
  case Nil
  then show ?case by simp
next
  case (Cons n ns)
  from Cons.prems show ?case
    by (auto simp: mark_indexed_frame dest!: Cons.IH
             split: option.splits prod.splits sum.splits if_splits)
qed

lemma processNotes_frame:
  "lastUpdate (fst (snd (processNotes e ns md w))) = lastUpdate md"
  "lastVersion (fst (snd (processNotes e ns md w))) = lastVersion md"
  by (auto simp: processNotes_def dest: processLoop_frame
           split: sum.splits prod.splits option.splits)

lemma processNotes_returns_iff:
  assumes "ns \<noteq> []"
  shows "(\<exists>c. fst (processNotes e ns md w) = Inr c) \<longleftrightarrow> can_process e w"
  using assms
  by (auto simp: can_process_def processNotes_def loadVectorIndex_def saveVectorIndex_def
                 perform_def Let_def split: option.splits prod.splits sum.splits)

lemma sorted_last_Max:
  "sorted xs \<Longrightarrow> xs \<noteq> [] \<Longrightarrow> last xs = Max (set xs)"
  for xs :: "int list"
proof (induction xs)
  case Nil
  then show ?case by simp
next
  case (Cons x xs)
  show ?case
  proof (cases "xs = []")
    case True
    then show ?thesis by simp
  next
    case False
    then have "Max (set xs) \<in> set xs" by simp
    then have "x \<le> Max (set xs)" using Cons.prems(1) by auto
    then show ?thesis
      using Cons False by (simp add: max_absorb2)
  qed
qed

lemma last_sort_key_modified:
  assumes "ns \<noteq> []"
  shows "modified (last (sort_key modified ns)) = Max (modified ` set ns)"
proof -
  let ?s = "sort_key modified ns"
  have ne: "?s \<noteq> []"
    using assms by (metis length_sort length_0_conv)
  have "modified (last ?s) = last (map modified ?s)"
    using ne by (simp add: last_map)
  also have "\<dots> = Max (set (map modified ?s))"
    using ne by (intro sorted_last_Max) simp_all
  finally show ?thesis
    by simp
qed

lemma select_modified_last:
  assumes "select_modified since table \<noteq> []"
  shows "modified (last (select_modified since table))
           = Max (modified ` set (select_modified since table))"
    and "since < modified (last (select_modified since table))"
proof -
  let ?rows = "map (\<lambda>r. \<lparr>note_id = ZUNIQUEIDENTIFIER r, title = ZTITLE r, content = ZTEXT r,
                  modified = ZMODIFICATIONDATE r\<rparr>)
            (filter (\<lambda>r. ZTRASHED r = 0 \<and> since < ZMODIFICATIONDATE r) table)"
  have ne: "?rows \<noteq> []"
    using assms by (auto simp: select_modified_def)
  show "modified (last (select_modified since table))
           = Max (modified ` set (select_modified since table))"
    unfolding select_modified_def using last_sort_key_modified[OF ne] by simp
  have "last (select_modified since table) \<in> set (select_modified since table)"
    using assms by (rule last_in_set)
  then show "since < modified (last (select_modified since table))"
    by (auto simp: select_modified_def)
qed

lemma resume_none: "length (passes s) \<le> i \<Longrightarrow> updateIndex_resume e i s = s"
  by (simp add: updateIndex_resume_def)

lemma resume_write_metadata:
  assumes "i < length (passes s)" and "passes s ! i = AwaitWriteMetadata c outcome"
  shows "metadata_obj (updateIndex_resume e i s) = metadata_obj s"
    and "passes (updateIndex_resume e i s) = take i (passes s) @ drop (Suc i) (passes s)"
  using assms
  by (simp_all add: updateIndex_resume_def Let_def updateIndex_finally_frame console_def
               split: option.splits)

lemma resume_process_notes_ok:
  assumes "i < length (passes s)" and "passes s ! i = AwaitProcessNotes ns" and "ns \<noteq> []"
      and "processNotes e ns (metadata_obj s) (world s) = (Inr c, md, w)"
  shows "updateIndex_resume e i s =
           (let md1 = md\<lparr>lastUpdate := max (lastUpdate md) (modified (last ns))\<rparr> in
            s\<lparr>metadata_obj := md1, world := snd (write_metadata md1 w),
              passes := (passes s)[i := AwaitWriteMetadata c (fst (write_metadata md1 w))]\<rparr>)"
  using assms by (simp add: updateIndex_resume_def Let_def split: prod.splits)

lemma resume_process_notes_failed:
  assumes "i < length (passes s)" and "passes s ! i = AwaitProcessNotes ns"
      and "processNotes e ns (metadata_obj s) (world s) = (Inl err, md, w)"
  shows "updateIndex_resume e i s =
           updateIndex_finally (console (ErrorUpdatingIndex err)
             (s\<lparr>metadata_obj := md, world := w,
                passes := take i (passes s) @ drop (Suc i) (passes s)\<rparr>))"
  using assms by (simp add: updateIndex_resume_def)

lemma resume_process_notes:
  assumes "i < length (passes s)" and "passes s ! i = AwaitProcessNotes ns"
  shows "(\<exists>c. fst (processNotes e ns (metadata_obj s) (world s)) = Inr c) \<Longrightarrow> ns \<noteq> [] \<Longrightarrow>
           lastUpdate (metadata_obj (updateIndex_resume e i s))
             = max (lastUpdate (metadata_obj s)) (modified (last ns))"
    and "\<not> (\<exists>c. fst (processNotes e ns (metadata_obj s) (world s)) = Inr c) \<Longrightarrow>
           lastUpdate (metadata_obj (updateIndex_resume e i s)) = lastUpdate (metadata_obj s) \<and>
           passes (updateIndex_resume e i s) = take i (passes s) @ drop (Suc i) (passes s)"
    and "ns = [] \<Longrightarrow> lastUpdate (metadata_obj (updateIndex_resume e i s)) = lastUpdate (metadata_obj s)"
proof -
  obtain r md w where pn: "processNotes e ns (metadata_obj s) (world s) = (r, md, w)"
    by (cases "processNotes e ns (metadata_obj s) (world s)") auto
  have md: "lastUpdate md = lastUpdate (metadata_obj s)"
    using processNotes_frame(1)[of e ns "metadata_obj s" "world s"] pn by simp
  show "(\<exists>c. fst (processNotes e ns (metadata_obj s) (world s)) = Inr c) \<Longrightarrow> ns \<noteq> [] \<Longrightarrow>
           lastUpdate (metadata_obj (updateIndex_resume e i s))
             = max (lastUpdate (metadata_obj s)) (modified (last ns))"
    using pn md by (auto simp: resume_process_notes_ok[OF assms] Let_def)
  show "\<not> (\<exists>c. fst (processNotes e ns (metadata_obj s) (world s)) = Inr c) \<Longrightarrow>
           lastUpdate (metadata_obj (updateIndex_resume e i s)) = lastUpdate (metadata_obj s) \<and>
           passes (updateIndex_resume e i s) = take i (passes s) @ drop (Suc i) (passes s)"
    using pn md
    by (cases r) (auto simp: resume_process_notes_failed[OF assms] updateIndex_finally_frame console_def)
  show "ns = [] \<Longrightarrow> lastUpdate (metadata_obj (updateIndex_resume e i s)) = lastUpdate (metadata_obj s)"
    using assms
    by (simp add: updateIndex_resume_def processNotes_def write_metadata_def perform_def Let_def)
qed

lemma lastUpdate_resume:
  "lastUpdate (metadata_obj s) \<le> lastUpdate (metadata_obj (updateIndex_resume e i s))"
proof (cases "i < length (passes s)")
  case False
  then show ?thesis by (simp add: resume_none)
next
  case True
  show ?thesis
  proof (cases "passes s ! i")
    case (AwaitProcessNotes ns)
    show ?thesis
      using resume_process_notes[OF True AwaitProcessNotes, of e]
      by (cases "ns = []"; cases "\<exists>c. fst (processNotes e ns (metadata_obj s) (world s)) = Inr c")
         (simp_all del: ex_simps)
  next
    case (AwaitWriteMetadata c outcome)
    then show ?thesis
      using resume_write_metadata(1)[OF True AwaitWriteMetadata] by simp
  qed
qed

lemma updateIndex_metadata: "metadata_obj (updateIndex s) = metadata_obj s"
  by (simp add: updateIndex_def query_modified_notes_def console_def perform_def
                updateIndex_finally_def Let_def scheduleUpdate_frame)

lemma checkDatabaseVersion_lastUpdate:
  "lastUpdate (metadata_obj (snd (checkDatabaseVersion s))) = lastUpdate (metadata_obj s)"
  by (simp add: checkDatabaseVersion_def pragma_data_version_def Let_def scheduleUpdate_frame)

lemma lastUpdate_step:
  "lastUpdate (metadata_obj s) \<le> lastUpdate (metadata_obj (step e ev s))"
  by (cases ev)
     (simp_all add: step_def Let_def checkDatabaseVersion_lastUpdate lastUpdate_resume
                    setupPolling_def timeout_expired_def updateIndex_metadata clearTimeout_def
               split: option.splits)

lemma can_process_journal [simp]:
  "can_process e (w\<lparr>journal := j\<rparr>) = can_process e w"
  by (simp add: can_process_def)

lemma complete_pass_watermark:
  assumes idle: "\<not> isIndexing s" "passes s = []"
  defines "fetched \<equiv> select_modified (lastUpdate (metadata_obj s)) (ZSFNOTE (database (world s)))"
  shows "lastUpdate (metadata_obj (complete_pass e s)) =
            (if \<not> query_throws (database (world s)) \<and> fetched \<noteq> [] \<and> can_process e (world s)
             then Max (modified ` set fetched) else lastUpdate (metadata_obj s))"
proof -
  consider (throws) "query_throws (database (world s))"
    | (none) "\<not> query_throws (database (world s))" "fetched = []"
    | (some) "\<not> query_throws (database (world s))" "fetched \<noteq> []"
    by blast
  then show ?thesis
  proof cases
    case throws
    then show ?thesis
      using idle by (simp add: complete_pass_def updateIndex_query_throws resume_none)
  next
    case none
    then show ?thesis
      using idle
      by (simp add: complete_pass_def updateIndex_nothing_modified[OF idle(1) none(1) none(2)[unfolded fetched_def]]
                    resume_none)
  next
    case some
    define s1 where "s1 = updateIndex s"
    have s1: "s1 = s\<lparr>isIndexing := True, dbChangeDetected := False,
             passes := passes s @ [AwaitProcessNotes fetched],
             world := (world s)\<lparr>journal := journal (world s) @
               [Console CheckingForNoteUpdates, QueryModifiedNotes (lastUpdate (metadata_obj s)),
                Console (FoundNotesToUpdate (length fetched))]\<rparr>\<rparr>"
      unfolding s1_def
      by (rule updateIndex_starts_pass[OF idle(1) some(1) _ some(2)]) (simp add: fetched_def)
    have p1: "0 < length (passes s1)" "passes s1 ! 0 = AwaitProcessNotes fetched"
      using idle by (simp_all add: s1)
    have md1: "metadata_obj s1 = metadata_obj s"
      by (simp add: s1)
    have cp: "can_process e (world s1) = can_process e (world s)"
      by (simp add: s1)
    have iff: "(\<exists>c. fst (processNotes e fetched (metadata_obj s1) (world s1)) = Inr c)
                 \<longleftrightarrow> can_process e (world s)"
      using processNotes_returns_iff[OF some(2), of e "metadata_obj s1" "world s1"] cp by simp
    define s2 where "s2 = updateIndex_resume e 0 s1"
    have last: "modified (last fetched) = Max (modified ` set fetched)"
               "lastUpdate (metadata_obj s) < modified (last fetched)"
      using select_modified_last[of "lastUpdate (metadata_obj s)" "ZSFNOTE (database (world s))"]
            some(2)
      by (simp_all add: fetched_def)
    show ?thesis
    proof (cases "can_process e (world s)")
      case True
      then obtain c md w where pn: "processNotes e fetched (metadata_obj s1) (world s1) = (Inr c, md, w)"
        using iff by (cases "processNotes e fetched (metadata_obj s1) (world s1)") auto
      have lu: "lastUpdate (metadata_obj s2) = Max (modified ` set fetched)"
        using resume_process_notes(1)[OF p1, of e] iff True some(2) last md1
        by (simp add: s2_def)
      have "passes s2 = (passes s1)[0 := AwaitWriteMetadata c (fst (write_metadata
                (md\<lparr>lastUpdate := max (lastUpdate md) (modified (last fetched))\<rparr>) w))]"
        unfolding s2_def resume_process_notes_ok[OF p1 some(2) pn] by (simp add: Let_def)
      moreover have "passes s1 = [AwaitProcessNotes fetched]"
        using idle by (simp add: s1)
      ultimately have "passes s2 = [AwaitWriteMetadata c (fst (write_metadata
                (md\<lparr>lastUpdate := max (lastUpdate md) (modified (last fetched))\<rparr>) w))]"
        by simp
      then have "metadata_obj (updateIndex_resume e 0 s2) = metadata_obj s2"
        by (intro resume_write_metadata(1)) simp_all
      then show ?thesis
        using lu True some by (simp add: complete_pass_def s1_def s2_def)
    next
      case False
      have "lastUpdate (metadata_obj s2) = lastUpdate (metadata_obj s) \<and> passes s2 = []"
        using resume_process_notes(2)[OF p1, of e] iff False md1 idle
        by (simp add: s2_def s1)
      then show ?thesis
        using False by (simp add: complete_pass_def s1_def[symmetric] s2_def[symmetric] resume_none)
    qed
  qed
qed


lemma suspended_step:
  assumes "isIndexing s" and "\<not> is_resume ev"
  shows "passes (step e ev s) = passes s \<and> isIndexing (step e ev s) \<and>
         lastUpdate (metadata_obj (step e ev s)) = lastUpdate (metadata_obj s) \<and>
         can_process e (world (step e ev s)) = can_process e (world s)"
proof (cases ev)
  case PollTick
  then show ?thesis
    using assms
    by (simp add: step_def checkDatabaseVersion_def pragma_data_version_def perform_def Let_def
                  can_process_def)
next
  case (TimeoutExpired h)
  then show ?thesis
    using assms
    by (simp add: step_def timeout_expired_def updateIndex_def console_def perform_def
                  clearTimeout_def can_process_def split: option.splits)
next
  case (Resume i)
  then show ?thesis using assms by (simp add: is_resume_def)
qed (use assms in \<open>simp_all add: step_def setupPolling_def can_process_def\<close>)

lemma suspended_run:
  assumes "isIndexing s" and "list_all (\<lambda>ev. \<not> is_resume ev) evs"
  shows "passes (run e evs s) = passes s \<and> isIndexing (run e evs s) \<and>
         lastUpdate (metadata_obj (run e evs s)) = lastUpdate (metadata_obj s) \<and>
         can_process e (world (run e evs s)) = can_process e (world s)"
  using assms
proof (induction evs arbitrary: s)
  case Nil
  then show ?case by simp
next
  case (Cons ev evs)
  have ev: "\<not> is_resume ev" and evs: "list_all (\<lambda>ev. \<not> is_resume ev) evs"
    using Cons.prems(2) by simp_all
  note st = suspended_step[OF Cons.prems(1) ev, of e]
  from st have busy: "isIndexing (step e ev s)" by simp
  show ?case
    using Cons.IH[OF busy evs] st by simp
qed

lemma interleaved_pass_watermark:
  fixes e :: "'v env" and s :: "'v sys"
  assumes idle: "\<not> isIndexing s" "passes s = []"
      and ok: "\<not> query_throws (database (world s))"
      and fetched: "select_modified (lastUpdate (metadata_obj s)) (ZSFNOTE (database (world s))) = fetched"
                   "fetched \<noteq> []"
      and evs: "list_all (\<lambda>ev. \<not> is_resume ev) evs1" "list_all (\<lambda>ev. \<not> is_resume ev) evs2"
  defines "s1 \<equiv> updateIndex_resume e 0 (run e evs1 (updateIndex s))"
  defines "s2 \<equiv> updateIndex_resume e 0 (run e evs2 s1)"
  shows "lastUpdate (metadata_obj s1) =
           (if can_process e (world s) then Max (modified ` set fetched)
            else lastUpdate (metadata_obj s))"
    and "can_process e (world s) \<Longrightarrow> lastUpdate (metadata_obj s2) = Max (modified ` set fetched)"
proof -
  define u where "u = updateIndex s"
  define x where "x = run e evs1 u"
  have u: "u = s\<lparr>isIndexing := True, dbChangeDetected := False,
             passes := passes s @ [AwaitProcessNotes fetched],
             world := (world s)\<lparr>journal := journal (world s) @
               [Console CheckingForNoteUpdates, QueryModifiedNotes (lastUpdate (metadata_obj s)),
                Console (FoundNotesToUpdate (length fetched))]\<rparr>\<rparr>"
    unfolding u_def by (rule updateIndex_starts_pass[OF idle(1) ok fetched])
  have ubusy: "isIndexing u" by (simp add: u)
  note fr = suspended_run[OF ubusy evs(1), of e, folded x_def]
  have px: "0 < length (passes x)" "passes x ! 0 = AwaitProcessNotes fetched"
    using fr idle by (simp_all add: u)
  have lx: "lastUpdate (metadata_obj x) = lastUpdate (metadata_obj s)"
    using fr by (simp add: u)
  have cx: "can_process e (world x) = can_process e (world s)"
    using fr by (simp add: u)
  have iff: "(\<exists>c. fst (processNotes e fetched (metadata_obj x) (world x)) = Inr c)
               \<longleftrightarrow> can_process e (world s)"
    using processNotes_returns_iff[OF fetched(2), of e "metadata_obj x" "world x"] cx by simp
  have last: "modified (last fetched) = Max (modified ` set fetched)"
             "lastUpdate (metadata_obj s) < modified (last fetched)"
    using select_modified_last[of "lastUpdate (metadata_obj s)" "ZSFNOTE (database (world s))"]
          fetched
    by simp_all
  have s1: "s1 = updateIndex_resume e 0 x"
    by (simp add: s1_def x_def u_def)
  show first: "lastUpdate (metadata_obj s1) =
           (if can_process e (world s) then Max (modified ` set fetched)
            else lastUpdate (metadata_obj s))"
  proof (cases "can_process e (world s)")
    case True
    then show ?thesis
      using resume_process_notes(1)[OF px, of e] iff fetched(2) last lx by (simp add: s1)
  next
    case False
    then show ?thesis
      using resume_process_notes(2)[OF px, of e] iff lx by (simp add: s1)
  qed
  show "lastUpdate (metadata_obj s2) = Max (modified ` set fetched)" if cp: "can_process e (world s)"
  proof -
    obtain c md w where pn: "processNotes e fetched (metadata_obj x) (world x) = (Inr c, md, w)"
      using iff cp by (cases "processNotes e fetched (metadata_obj x) (world x)") auto
    define md1 where "md1 = md\<lparr>lastUpdate := max (lastUpdate md) (modified (last fetched))\<rparr>"
    have s1': "s1 = x\<lparr>metadata_obj := md1, world := snd (write_metadata md1 w),
              passes := (passes x)[0 := AwaitWriteMetadata c (fst (write_metadata md1 w))]\<rparr>"
      unfolding s1 resume_process_notes_ok[OF px fetched(2) pn] by (simp add: Let_def md1_def)
    have busy1: "isIndexing s1"
      using fr by (simp add: s1')
    have p1: "passes s1 = [AwaitWriteMetadata c (fst (write_metadata md1 w))]"
      using fr idle by (simp add: s1' u)
    define y where "y = run e evs2 s1"
    note fr2 = suspended_run[OF busy1 evs(2), of e, folded y_def]
    have py: "0 < length (passes y)" "passes y ! 0 = AwaitWriteMetadata c (fst (write_metadata md1 w))"
      using fr2 p1 by simp_all
    have "metadata_obj (updateIndex_resume e 0 y) = metadata_obj y"
      by (rule resume_write_metadata(1)[OF py])
    then have "lastUpdate (metadata_obj s2) = lastUpdate (metadata_obj s1)"
      using fr2 by (simp add: s2_def y_def)
    then show ?thesis
      using first cp by simp
  qed
qed

lemma boot: "monitorDatabase scenario_world = Inr scenario_boot"
  by (simp add: scenario_defs watch_defs index_defs Let_def)


section \<open>Properties of the update scheduler\<close>

text \<open>
  C8: when no document of the database has a modification time above the watermark,
  an invocation of \<open>updateIndex\<close> ends within the call and is a no-op: the metadata
  object is the same, no activation is left suspended, no follow-up is scheduled, none
  of the three files is written or changed. On an idle process whose query succeeds it
  does nothing but clear the change flag, run the query and print two lines.
\<close>

theorem idempotent_resume:
  assumes "\<forall>r \<in> set (ZSFNOTE (database (world s))). ZMODIFICATIONDATE r \<le> lastUpdate (metadata_obj s)"
  shows "metadata_obj (updateIndex s) = metadata_obj s \<and>
         passes (updateIndex s) = passes s \<and>
         isIndexing (updateIndex s) = isIndexing s \<and>
         timeouts (updateIndex s) = timeouts s \<and>
         writes_of (world (updateIndex s)) = writes_of (world s) \<and>
         index_file (world (updateIndex s)) = index_file (world s) \<and>
         map_file (world (updateIndex s)) = map_file (world s) \<and>
         metadata_file (world (updateIndex s)) = metadata_file (world s) \<and>
         (\<not> isIndexing s \<and> \<not> query_throws (database (world s)) \<longrightarrow>
            updateIndex s =
              s\<lparr>dbChangeDetected := False,
                world := (world s)\<lparr>journal := journal (world s) @
                  [Console CheckingForNoteUpdates, QueryModifiedNotes (lastUpdate (metadata_obj s)),
                   Console NoModifiedNotesFound]\<rparr>\<rparr>)"
proof -
  have none: "select_modified (lastUpdate (metadata_obj s)) (ZSFNOTE (database (world s))) = []"
    using assms by (rule select_modified_none)
  consider (busy) "isIndexing s"
    | (throws) "\<not> isIndexing s" "query_throws (database (world s))"
    | (idle) "\<not> isIndexing s" "\<not> query_throws (database (world s))"
    by blast
  then show ?thesis
  proof cases
    case busy
    then show ?thesis
      by (simp add: updateIndex_busy console_def perform_def writes_of_def is_write_def)
  next
    case throws
    then show ?thesis
      by (simp add: updateIndex_query_throws writes_of_def is_write_def)
  next
    case idle
    then show ?thesis
      by (simp add: updateIndex_nothing_modified[OF idle none] writes_of_def is_write_def)
  qed
qed

theorem idempotent_resume_witness:
  "list_all (\<lambda>r. ZMODIFICATIONDATE r \<le> lastUpdate (metadata_obj caught_up))
     (ZSFNOTE (database (world caught_up))) = True \<and>
   \<not> isIndexing caught_up \<and> \<not> query_throws (database (world caught_up)) \<and>
   metadata_obj (updateIndex caught_up) = metadata_obj caught_up \<and>
   writes_of (world (updateIndex caught_up)) = writes_of (world caught_up) \<and>
   journal (world (updateIndex caught_up)) =
     [Console CheckingForNoteUpdates, QueryModifiedNotes 1500, Console NoModifiedNotesFound]"
  using idempotent_resume [where s = caught_up]
  by (simp add: writes_of_def is_write_def scenario_defs watch_defs index_defs Let_def)

text \<open>
  C2: an invocation of \<open>updateIndex\<close> that finds \<^verbatim>\<open>isIndexing\<close> set does nothing but print
  that it skips: no query, no load, no write, no change of any variable. From the state
  that \<open>monitorDatabase\<close> leaves, after every sequence of events (file changes, poll
  ticks, timer expiries, continuations, writes to the database, passing time) at most one
  activation of \<open>updateIndex\<close> is suspended inside the guarded section, and one is
  exactly when the flag is set.
\<close>

theorem at_most_one_in_flight:
  "(isIndexing s \<longrightarrow> updateIndex s = console IndexingAlreadyInProgress s) \<and>
   (monitorDatabase w = Inr booted \<longrightarrow>
      length (passes (run e evs booted)) \<le> 1 \<and>
      (isIndexing (run e evs booted) \<longleftrightarrow> passes (run e evs booted) \<noteq> []))"
proof (intro conjI impI)
  assume "isIndexing s"
  then show "updateIndex s = console IndexingAlreadyInProgress s"
    by (rule updateIndex_busy)
next
  assume "monitorDatabase w = Inr booted"
  then have "pass_inv (run e evs booted)"
    by (intro pass_inv_run monitorDatabase_inv)
  then show "length (passes (run e evs booted)) \<le> 1"
    and "isIndexing (run e evs booted) \<longleftrightarrow> passes (run e evs booted) \<noteq> []"
    by (auto simp: pass_inv_def split: if_splits)
qed

theorem at_most_one_in_flight_witness:
  "isIndexing scenario_fetched \<and>
   updateIndex scenario_fetched = console IndexingAlreadyInProgress scenario_fetched \<and>
   monitorDatabase scenario_world = Inr scenario_boot \<and>
   length (passes (run scenario_env busy_interleaving scenario_boot)) = 1 \<and>
   isIndexing (run scenario_env busy_interleaving scenario_boot)"
  using at_most_one_in_flight [where s = scenario_fetched and w = scenario_world
          and booted = scenario_boot and e = scenario_env and evs = busy_interleaving]
        boot
  by (simp add: scenario_defs watch_defs index_defs Let_def)

section \<open>Debouncing\<close>

lemma invocations_updateIndex: "invocations (updateIndex s) = Suc (invocations s)"
  by (simp add: invocations_def is_invocation_def updateIndex_def query_modified_notes_def
                console_def perform_def updateIndex_finally_def Let_def)

lemma armed_scheduleUpdate: "timer_inv s \<Longrightarrow> armed (scheduleUpdate s)"
  by (simp add: armed_def scheduleUpdate_timers scheduleUpdate_frame)

lemma armed_length: "armed s \<Longrightarrow> length (timeouts s) = 1"
  by (auto simp: armed_def)

lemma armed_timer_inv: "armed s \<Longrightarrow> timer_inv s"
  by (auto simp: armed_def timer_inv_def)

lemma not_due:
  assumes "armed s" and "d < 1000"
  shows "run_due_timeouts (s\<lparr>clock := clock s + d\<rparr>) = s\<lparr>clock := clock s + d\<rparr>"
  using assms by (auto simp: armed_def run_due_timeouts_def timeout_expired_def)

lemma due:
  assumes "armed s"
  shows "run_due_timeouts (s\<lparr>clock := clock s + 1000\<rparr>)
           = updateIndex (s\<lparr>clock := clock s + 1000, timeouts := [], pendingUpdateTimeout := None\<rparr>)"
  using assms by (auto simp: armed_def run_due_timeouts_def timeout_expired_def clearTimeout_def)

lemma burst_step:
  assumes "armed s" and "d < 1000"
  shows "armed (scheduleUpdate (run_due_timeouts (s\<lparr>clock := clock s + d\<rparr>)))"
    and "invocations (scheduleUpdate (run_due_timeouts (s\<lparr>clock := clock s + d\<rparr>))) = invocations s"
    and "passes (scheduleUpdate (run_due_timeouts (s\<lparr>clock := clock s + d\<rparr>))) = passes s"
proof -
  have "timer_inv (s\<lparr>clock := clock s + d\<rparr>)"
    using armed_timer_inv[OF assms(1)] by (simp add: timer_inv_def)
  then show "armed (scheduleUpdate (run_due_timeouts (s\<lparr>clock := clock s + d\<rparr>)))"
    by (simp add: not_due[OF assms] armed_scheduleUpdate)
  show "invocations (scheduleUpdate (run_due_timeouts (s\<lparr>clock := clock s + d\<rparr>))) = invocations s"
    by (simp add: not_due[OF assms] invocations_def scheduleUpdate_frame)
  show "passes (scheduleUpdate (run_due_timeouts (s\<lparr>clock := clock s + d\<rparr>))) = passes s"
    by (simp add: not_due[OF assms] scheduleUpdate_frame)
qed

lemma burst_armed:
  assumes "armed s" and "\<forall>d \<in> set ds. d < 1000"
  shows "armed (burst ds s) \<and> invocations (burst ds s) = invocations s \<and> passes (burst ds s) = passes s"
  using assms
proof (induction ds arbitrary: s)
  case Nil
  then show ?case by simp
next
  case (Cons d ds)
  have d: "d < 1000" using Cons.prems by simp
  show ?case
    using Cons.IH[OF burst_step(1)[OF Cons.prems(1) d]] Cons.prems(2)
          burst_step(2,3)[OF Cons.prems(1) d]
    by simp
qed

lemma burst_append: "burst (ds @ ds') s = burst ds' (burst ds s)"
  by (induction ds arbitrary: s) simp_all


text \<open>
  C4: from the state that \<open>monitorDatabase\<close> leaves, after every sequence of events, at
  most one timer is armed. When \<open>scheduleUpdate\<close> is then called once and again after
  each of the delays \<open>ds\<close>, every delay shorter than the 1000 ms of the debounce, exactly
  one timer is armed after each call, it is the pending one and it is due 1000 ms
  after the last call; no invocation of \<open>updateIndex\<close> happens during the burst; and
  when the 1000 ms have passed, the event loop makes exactly one invocation and no timer
  is left.
\<close>

theorem debounce_coalescing:
  assumes "monitorDatabase w = Inr booted" and "\<forall>d \<in> set ds. d < 1000"
  shows "length (timeouts (run e evs booted)) \<le> 1 \<and>
         (\<forall>k \<le> length ds. length (timeouts (burst (take k ds) (scheduleUpdate (run e evs booted)))) = 1) \<and>
         (let s = burst ds (scheduleUpdate (run e evs booted));
              s' = run_due_timeouts (s\<lparr>clock := clock s + 1000\<rparr>)
          in invocations s = invocations (run e evs booted) \<and>
             timeouts s = [(next_handle s - 1, clock s + 1000)] \<and>
             pendingUpdateTimeout s = Some (next_handle s - 1) \<and>
             invocations s' = Suc (invocations (run e evs booted)) \<and>
             timeouts s' = [])"
proof -
  let ?s = "run e evs booted"
  have inv: "timer_inv ?s"
    using assms(1) by (intro timer_inv_run monitorDatabase_inv)
  have first: "armed (scheduleUpdate ?s)"
    using inv by (rule armed_scheduleUpdate)
  have prefix: "armed (burst (take k ds) (scheduleUpdate ?s))" for k
    using burst_armed[OF first, of "take k ds"] assms(2) by (auto dest: in_set_takeD)
  have all: "armed (burst ds (scheduleUpdate ?s))"
            "invocations (burst ds (scheduleUpdate ?s)) = invocations ?s"
    using burst_armed[OF first assms(2)] by (simp_all add: invocations_def scheduleUpdate_frame)
  have a: "length (timeouts ?s) \<le> 1"
    using inv by (simp add: timer_inv_def)
  have b: "\<forall>k \<le> length ds. length (timeouts (burst (take k ds) (scheduleUpdate ?s))) = 1"
    using armed_length[OF prefix] by simp
  have c: "invocations (run_due_timeouts ((burst ds (scheduleUpdate ?s))
              \<lparr>clock := clock (burst ds (scheduleUpdate ?s)) + 1000\<rparr>)) = Suc (invocations ?s)"
    by (simp add: due[OF all(1)] invocations_updateIndex)
       (simp add: invocations_def all(2)[unfolded invocations_def])
  have d: "timeouts (run_due_timeouts ((burst ds (scheduleUpdate ?s))
              \<lparr>clock := clock (burst ds (scheduleUpdate ?s)) + 1000\<rparr>)) = []"
    by (simp add: due[OF all(1)] updateIndex_timers)
  show ?thesis
    using a b c d all by (simp add: Let_def armed_def)
qed

theorem debounce_coalescing_witness:
  "monitorDatabase scenario_world = Inr scenario_boot \<and>
   list_all (\<lambda>d. d < 1000) [300, 999 :: nat] = True \<and>
   length (timeouts (run scenario_env [PollTick] scenario_boot)) = 1 \<and>
   timeouts (burst [] (scheduleUpdate (run scenario_env [PollTick] scenario_boot))) = [(1, 1000)] \<and>
   timeouts (burst [300] (scheduleUpdate (run scenario_env [PollTick] scenario_boot))) = [(2, 1300)] \<and>
   timeouts (burst [300, 999] (scheduleUpdate (run scenario_env [PollTick] scenario_boot)))
     = [(3, 2299)] \<and>
   pendingUpdateTimeout (burst [300, 999] (scheduleUpdate (run scenario_env [PollTick] scenario_boot)))
     = Some 3 \<and>
   invocations (burst [300, 999] (scheduleUpdate (run scenario_env [PollTick] scenario_boot))) = 0"
  using debounce_coalescing [where w = scenario_world and booted = scenario_boot and ds = "[300, 999]"
          and e = scenario_env and evs = "[PollTick]"]
        boot
  by (simp add: invocations_def is_invocation_def run_due_timeouts_def
                scenario_defs watch_defs index_defs Let_def)

section \<open>The version check\<close>

lemma scheduleUpdate_next_handle: "next_handle (scheduleUpdate s) = Suc (next_handle s)"
  by (simp add: scheduleUpdate_def setTimeout_def clearTimeout_def split: option.splits)


text \<open>
  C6: when the read of the version counter succeeds and the value differs from
  \<^verbatim>\<open>metadata.lastVersion\<close>, \<open>checkDatabaseVersion\<close> stores the value there, returns true
  and calls \<open>scheduleUpdate\<close> exactly when \<^verbatim>\<open>isIndexing\<close> is not set (a timer handle
  is allocated exactly then); when the value is the same, or when the read throws, it
  returns false and leaves everything as it was, but for the read in the journal.
\<close>

theorem checkDatabaseVersion_cases:
  "(\<not> pragma_throws (database (world s)) \<and>
    data_version (database (world s)) \<noteq> lastVersion (metadata_obj s) \<longrightarrow>
      (let v = data_version (database (world s));
           s1 = s\<lparr>lastVersion_var := v,
                   metadata_obj := (metadata_obj s)\<lparr>lastVersion := v\<rparr>,
                   world := perform ReadDataVersion (world s)\<rparr>
       in checkDatabaseVersion s = (True, if isIndexing s then s1 else scheduleUpdate s1) \<and>
          lastVersion (metadata_obj (snd (checkDatabaseVersion s))) = v \<and>
          next_handle (snd (checkDatabaseVersion s))
            = (if isIndexing s then next_handle s else Suc (next_handle s)))) \<and>
   (\<not> pragma_throws (database (world s)) \<and>
    data_version (database (world s)) = lastVersion (metadata_obj s) \<longrightarrow>
      checkDatabaseVersion s = (False, s\<lparr>world := perform ReadDataVersion (world s)\<rparr>)) \<and>
   (pragma_throws (database (world s)) \<longrightarrow>
      checkDatabaseVersion s = (False, s\<lparr>world := perform ReadDataVersion (world s)\<rparr>))"
  by (simp add: checkDatabaseVersion_def pragma_data_version_def perform_def Let_def
                scheduleUpdate_def setTimeout_def clearTimeout_def split: option.splits)

theorem checkDatabaseVersion_cases_witness:
  "\<not> pragma_throws (database (world scenario_start)) \<and>
   data_version (database (world scenario_start)) \<noteq> lastVersion (metadata_obj scenario_start) \<and>
   fst (checkDatabaseVersion scenario_start) = True \<and>
   lastVersion (metadata_obj (snd (checkDatabaseVersion scenario_start))) = 200 \<and>
   timeouts (snd (checkDatabaseVersion scenario_start)) = [(0, 1000)] \<and>
   isIndexing scenario_fetched \<and>
   fst (checkDatabaseVersion (step scenario_env (DatabaseWritten [] 300) scenario_fetched)) = True \<and>
   timeouts (snd (checkDatabaseVersion (step scenario_env (DatabaseWritten [] 300) scenario_fetched)))
     = [] \<and>
   data_version (database (world scenario_boot)) = lastVersion (metadata_obj scenario_boot) \<and>
   checkDatabaseVersion scenario_boot
     = (False, scenario_boot\<lparr>world := perform ReadDataVersion (world scenario_boot)\<rparr>) \<and>
   pragma_throws (database (world (scenario_start\<lparr>world := scenario_world
       \<lparr>database := scenario_database\<lparr>pragma_throws := True\<rparr>\<rparr>\<rparr>))) \<and>
   fst (checkDatabaseVersion (scenario_start\<lparr>world := scenario_world
       \<lparr>database := scenario_database\<lparr>pragma_throws := True\<rparr>\<rparr>\<rparr>)) = False \<and>
   metadata_obj (snd (checkDatabaseVersion (scenario_start\<lparr>world := scenario_world
       \<lparr>database := scenario_database\<lparr>pragma_throws := True\<rparr>\<rparr>\<rparr>))) = scenario_metadata"
  using checkDatabaseVersion_cases [where s = scenario_start]
        checkDatabaseVersion_cases [where s = "step scenario_env (DatabaseWritten [] 300) scenario_fetched"]
        checkDatabaseVersion_cases [where s = scenario_boot]
        checkDatabaseVersion_cases [where s = "scenario_start\<lparr>world := scenario_world
           \<lparr>database := scenario_database\<lparr>pragma_throws := True\<rparr>\<rparr>\<rparr>"]
  by (simp add: scenario_defs watch_defs index_defs Let_def)

section \<open>The watermark\<close>

text \<open>
  C1, as stated, fails: over a database whose only modified note is empty, the pass
  processes no document (it reports 0), and yet the watermark moves from 1000 to the
  1600 of the note that failed.
\<close>

theorem watermark_counterexample:
  "lastUpdate (metadata_obj empty_note_start) = 1000 \<and>
   lastUpdate (metadata_obj (complete_pass scenario_env empty_note_start)) = 1600 \<and>
   last (journal (world (complete_pass scenario_env empty_note_start)))
     = Console (IndexUpdateCompleted 0)"
  by (simp add: complete_pass_def scenario_defs watch_defs index_defs Let_def)


text \<open>
  C1 (amended): no step of the process ever lowers \<open>lastUpdate\<close>. After a pass of an
  idle process, \<open>lastUpdate\<close> is the maximum modification time among the documents that
  the pass fetched, whether or not each of them was processed successfully, provided the
  query succeeded, fetched something and \<open>processNotes\<close> returned; otherwise it is
  unchanged. The same holds when other callbacks run while the pass is suspended at
  either of its two \<^verbatim>\<open>await\<close>s.
\<close>

theorem watermark_after_pass:
  "lastUpdate (metadata_obj s) \<le> lastUpdate (metadata_obj (step e ev s)) \<and>
   (\<not> isIndexing s \<and> passes s = [] \<longrightarrow>
      (let fetched = select_modified (lastUpdate (metadata_obj s)) (ZSFNOTE (database (world s)))
       in lastUpdate (metadata_obj (complete_pass e s)) =
            (if \<not> query_throws (database (world s)) \<and> fetched \<noteq> [] \<and> can_process e (world s)
             then Max (modified ` set fetched) else lastUpdate (metadata_obj s)) \<and>
          lastUpdate (metadata_obj s) \<le> lastUpdate (metadata_obj (complete_pass e s)) \<and>
          (\<not> query_throws (database (world s)) \<and> fetched \<noteq> [] \<and>
           list_all (\<lambda>ev. \<not> is_resume ev) evs1 \<and> list_all (\<lambda>ev. \<not> is_resume ev) evs2 \<longrightarrow>
             (let s1 = updateIndex_resume e 0 (run e evs1 (updateIndex s))
              in lastUpdate (metadata_obj s1) =
                   (if can_process e (world s) then Max (modified ` set fetched)
                    else lastUpdate (metadata_obj s)) \<and>
                 (can_process e (world s) \<longrightarrow>
                    lastUpdate (metadata_obj (updateIndex_resume e 0 (run e evs2 s1)))
                      = Max (modified ` set fetched))))))"
proof (intro conjI impI)
  show "lastUpdate (metadata_obj s) \<le> lastUpdate (metadata_obj (step e ev s))"
    by (rule lastUpdate_step)
next
  assume idle: "\<not> isIndexing s \<and> passes s = []"
  define fetched where
    "fetched = select_modified (lastUpdate (metadata_obj s)) (ZSFNOTE (database (world s)))"
  have w: "lastUpdate (metadata_obj (complete_pass e s)) =
            (if \<not> query_throws (database (world s)) \<and> fetched \<noteq> [] \<and> can_process e (world s)
             then Max (modified ` set fetched) else lastUpdate (metadata_obj s))"
    using complete_pass_watermark[of s e] idle by (simp add: fetched_def)
  have m: "lastUpdate (metadata_obj s) \<le> lastUpdate (metadata_obj (complete_pass e s))"
    unfolding complete_pass_def
    using lastUpdate_resume[of "updateIndex s" e 0]
          lastUpdate_resume[of "updateIndex_resume e 0 (updateIndex s)" e 0]
    by (simp add: updateIndex_metadata)
  have i: "lastUpdate (metadata_obj (updateIndex_resume e 0 (run e evs1 (updateIndex s)))) =
             (if can_process e (world s) then Max (modified ` set fetched)
              else lastUpdate (metadata_obj s)) \<and>
           (can_process e (world s) \<longrightarrow>
              lastUpdate (metadata_obj (updateIndex_resume e 0
                 (run e evs2 (updateIndex_resume e 0 (run e evs1 (updateIndex s))))))
                = Max (modified ` set fetched))"
    if "\<not> query_throws (database (world s)) \<and> fetched \<noteq> [] \<and>
        list_all (\<lambda>ev. \<not> is_resume ev) evs1 \<and> list_all (\<lambda>ev. \<not> is_resume ev) evs2"
    using interleaved_pass_watermark[of s fetched evs1 evs2 e] idle that
    by (simp add: fetched_def)
  show "let fetched = select_modified (lastUpdate (metadata_obj s)) (ZSFNOTE (database (world s)))
       in lastUpdate (metadata_obj (complete_pass e s)) =
            (if \<not> query_throws (database (world s)) \<and> fetched \<noteq> [] \<and> can_process e (world s)
             then Max (modified ` set fetched) else lastUpdate (metadata_obj s)) \<and>
          lastUpdate (metadata_obj s) \<le> lastUpdate (metadata_obj (complete_pass e s)) \<and>
          (\<not> query_throws (database (world s)) \<and> fetched \<noteq> [] \<and>
           list_all (\<lambda>ev. \<not> is_resume ev) evs1 \<and> list_all (\<lambda>ev. \<not> is_resume ev) evs2 \<longrightarrow>
             (let s1 = updateIndex_resume e 0 (run e evs1 (updateIndex s))
              in lastUpdate (metadata_obj s1) =
                   (if can_process e (world s) then Max (modified ` set fetched)
                    else lastUpdate (metadata_obj s)) \<and>
                 (can_process e (world s) \<longrightarrow>
                    lastUpdate (metadata_obj (updateIndex_resume e 0 (run e evs2 s1)))
                      = Max (modified ` set fetched))))"
    unfolding Let_def fetched_def[symmetric] using w m i by blast
qed

theorem watermark_after_pass_witness:
  "lastUpdate (metadata_obj scenario_start)
     \<le> lastUpdate (metadata_obj (step scenario_env PollTick scenario_start)) \<and>
   \<not> isIndexing scenario_start \<and> passes scenario_start = [] \<and>
   \<not> query_throws (database (world scenario_start)) \<and>
   select_modified (lastUpdate (metadata_obj scenario_start))
     (ZSFNOTE (database (world scenario_start))) = [scenario_note] \<and>
   can_process scenario_env (world scenario_start) \<and>
   lastUpdate (metadata_obj (complete_pass scenario_env scenario_start)) = 1500 \<and>
   list_all (\<lambda>ev. \<not> is_resume ev) [DatabaseWritten [] 300, FileChange, PollTick] = True \<and>
   list_all (\<lambda>ev. \<not> is_resume ev) [PollTick, Elapse 5] = True \<and>
   lastUpdate (metadata_obj
     (updateIndex_resume scenario_env 0 (run scenario_env [PollTick, Elapse 5]
        (updateIndex_resume scenario_env 0
           (run scenario_env [DatabaseWritten [] 300, FileChange, PollTick]
              (updateIndex scenario_start)))))) = 1500"
  using watermark_after_pass [where s = scenario_start and e = scenario_env and ev = PollTick
          and ?evs1.0 = "[DatabaseWritten [] 300, FileChange, PollTick]"
          and ?evs2.0 = "[PollTick, Elapse 5]"]
  by (simp add: can_process_def is_resume_def scenario_defs watch_defs index_defs Let_def)

section \<open>The lifecycle of metadata and index\<close>

lemma metadata_loads_processNotes:
  "metadata_loads (snd (snd (processNotes e ns md w))) = metadata_loads w"
  by (simp add: metadata_loads_def processNotes_def loadVectorIndex_def saveVectorIndex_def
                perform_def Let_def split: sum.splits option.splits prod.splits)

lemma metadata_loads_write_metadata:
  "metadata_loads (snd (write_metadata md w)) = metadata_loads w"
  by (simp add: metadata_loads_def write_metadata_def perform_def Let_def)

lemma metadata_loads_finally:
  "metadata_loads (world (updateIndex_finally s)) = metadata_loads (world s)"
  by (simp add: metadata_loads_def updateIndex_finally_def Let_def scheduleUpdate_frame console_def
                perform_def)

lemma metadata_loads_updateIndex:
  "metadata_loads (world (updateIndex s)) = metadata_loads (world s)"
  by (simp add: metadata_loads_def updateIndex_def query_modified_notes_def console_def perform_def
                updateIndex_finally_def Let_def)

lemma metadata_loads_checkDatabaseVersion:
  "metadata_loads (world (snd (checkDatabaseVersion s))) = metadata_loads (world s)"
  by (simp add: metadata_loads_def checkDatabaseVersion_def pragma_data_version_def Let_def
                scheduleUpdate_frame perform_def)

lemma index_loads_checkDatabaseVersion:
  "index_loads (world (snd (checkDatabaseVersion s))) = index_loads (world s)"
  by (simp add: index_loads_def checkDatabaseVersion_def pragma_data_version_def Let_def
                scheduleUpdate_frame perform_def)

lemma metadata_loads_resume:
  "metadata_loads (world (updateIndex_resume e i s)) = metadata_loads (world s)"
proof (cases "i < length (passes s)")
  case False
  then show ?thesis by (simp add: resume_none)
next
  case True
  show ?thesis
  proof (cases "passes s ! i")
    case (AwaitProcessNotes ns)
    obtain r md w where pn: "processNotes e ns (metadata_obj s) (world s) = (r, md, w)"
      by (cases "processNotes e ns (metadata_obj s) (world s)") auto
    have w: "metadata_loads w = metadata_loads (world s)"
      using metadata_loads_processNotes[of e ns "metadata_obj s" "world s"] pn by simp
    show ?thesis
    proof (cases r)
      case (Inl err)
      show ?thesis
        using True AwaitProcessNotes pn Inl w
        by (simp add: updateIndex_resume_def metadata_loads_finally)
           (simp add: console_def metadata_loads_def perform_def)
    next
      case (Inr c)
      show ?thesis
        using True AwaitProcessNotes pn Inr w
        by (simp add: updateIndex_resume_def Let_def write_metadata_def perform_def
                      metadata_loads_def)
    qed
  next
    case (AwaitWriteMetadata c outcome)
    then show ?thesis
      using True
      by (simp add: updateIndex_resume_def Let_def metadata_loads_finally split: option.splits)
         (simp add: console_def metadata_loads_def perform_def)
  qed
qed

lemma metadata_loads_step:
  "metadata_loads (world (step e ev s)) = metadata_loads (world s)"
proof (cases ev)
  case (DatabaseWritten table v)
  then show ?thesis by (simp add: step_def metadata_loads_def)
qed (simp_all add: step_def Let_def metadata_loads_checkDatabaseVersion metadata_loads_resume
                   setupPolling_def timeout_expired_def metadata_loads_updateIndex clearTimeout_def
              split: option.splits)

lemma monitorDatabase_loads:
  assumes "monitorDatabase w = Inr booted"
  shows "metadata_loads (world booted) = Suc (metadata_loads w)"
    and "index_loads (world booted) = index_loads w"
  using assms
  by (auto simp: monitorDatabase_def initializeMetadata_def write_metadata_def perform_def Let_def
                 metadata_loads_checkDatabaseVersion index_loads_checkDatabaseVersion
                 setupPolling_def setupFileWatcher_def
           split: option.splits if_splits)
     (simp_all add: metadata_loads_def index_loads_def)

lemma pass_loads_and_saves:
  assumes "i < length (passes s)" and "passes s ! i = AwaitProcessNotes ns" and "ns \<noteq> []"
      and "initEmbedder e = Inr b" and "fst (loadVectorIndex (world s)) = Inr loaded"
      and "index_writable (world s)" and "map_writable (world s)" and "metadata_writable (world s)"
  shows "journal (world (updateIndex_resume e i s)) =
           journal (world s) @ [ReadIndexFile, ReadMapFile, WriteIndexFile, WriteMapFile, WriteMetadataFile]"
    and "index_file (world (updateIndex_resume e i s))
           = Some (vectors (fst (processLoop e 0 ns (loaded, metadata_obj s, 0))))"
    and "map_file (world (updateIndex_resume e i s))
           = Some (noteIdMap (fst (processLoop e 0 ns (loaded, metadata_obj s, 0))))"
    and "metadata_file (world (updateIndex_resume e i s)) = Some (metadata_obj (updateIndex_resume e i s))"
proof -
  obtain st' md' c where loop: "processLoop e 0 ns (loaded, metadata_obj s, 0) = (st', md', c)"
    by (cases "processLoop e 0 ns (loaded, metadata_obj s, 0)") auto
  have pn: "processNotes e ns (metadata_obj s) (world s) =
              (Inr c, md',
               (world s)\<lparr>index_file := Some (vectors st'), map_file := Some (noteIdMap st'),
                 journal := journal (world s) @ [ReadIndexFile, ReadMapFile, WriteIndexFile, WriteMapFile]\<rparr>)"
    using processNotes_returns[OF assms(3,4,5,6,7), of "metadata_obj s"] loop by simp
  note eq = resume_process_notes_ok[OF assms(1,2,3) pn]
  show "journal (world (updateIndex_resume e i s)) =
           journal (world s) @ [ReadIndexFile, ReadMapFile, WriteIndexFile, WriteMapFile, WriteMetadataFile]"
    using assms(8) by (simp add: eq Let_def write_metadata_def perform_def)
  show "index_file (world (updateIndex_resume e i s))
           = Some (vectors (fst (processLoop e 0 ns (loaded, metadata_obj s, 0))))"
    using assms(8) by (simp add: eq Let_def write_metadata_def perform_def loop)
  show "map_file (world (updateIndex_resume e i s))
           = Some (noteIdMap (fst (processLoop e 0 ns (loaded, metadata_obj s, 0))))"
    using assms(8) by (simp add: eq Let_def write_metadata_def perform_def loop)
  show "metadata_file (world (updateIndex_resume e i s)) = Some (metadata_obj (updateIndex_resume e i s))"
    using assms(8) by (simp add: eq Let_def write_metadata_def perform_def)
qed


text \<open>
  C7, as stated, fails: \<open>monitorDatabase\<close> does not load the index at all; every pass
  that has notes to process loads it from the files again, so that after two passes it
  has been loaded twice.
\<close>

theorem lifecycle_counterexample:
  "monitorDatabase scenario_world = Inr scenario_boot \<and>
   index_loads (world scenario_boot) = 0 \<and>
   index_loads (world (run scenario_env first_pass scenario_boot)) = 1 \<and>
   index_loads (world (run scenario_env (first_pass @ second_pass) scenario_boot)) = 2"
  by (simp add: index_loads_def first_pass_def second_pass_def scenario_defs watch_defs index_defs Let_def)


text \<open>
  C7 (amended): the metadata record is loaded from its file once, by \<open>monitorDatabase\<close>,
  which does not load the index; no later step loads the metadata again. The index and
  the position mapping are not kept between passes: the continuation of a pass that has
  notes to process loads both from their files, and, when the embedder initialises and
  all three files can be written, writes back the index and the mapping that the loop
  produced from the loaded ones, and then the metadata record as it is in memory.
\<close>

theorem lifecycle_of_metadata_and_index:
  "(monitorDatabase w = Inr booted \<longrightarrow>
      metadata_loads (world booted) = Suc (metadata_loads w) \<and> index_loads (world booted) = index_loads w) \<and>
   metadata_loads (world (step e ev s)) = metadata_loads (world s) \<and>
   (i < length (passes s) \<and> passes s ! i = AwaitProcessNotes ns \<and> ns \<noteq> [] \<and>
    initEmbedder e = Inr b \<and> fst (loadVectorIndex (world s)) = Inr loaded \<and>
    index_writable (world s) \<and> map_writable (world s) \<and> metadata_writable (world s) \<longrightarrow>
      (let s' = updateIndex_resume e i s;
           st' = fst (processLoop e 0 ns (loaded, metadata_obj s, 0))
       in journal (world s') = journal (world s) @
            [ReadIndexFile, ReadMapFile, WriteIndexFile, WriteMapFile, WriteMetadataFile] \<and>
          index_file (world s') = Some (vectors st') \<and>
          map_file (world s') = Some (noteIdMap st') \<and>
          metadata_file (world s') = Some (metadata_obj s')))"
  using monitorDatabase_loads[of w booted] metadata_loads_step[of e ev s]
        pass_loads_and_saves[of i s ns e b loaded]
  by (simp add: Let_def)


theorem lifecycle_of_metadata_and_index_witness:
  "monitorDatabase scenario_world = Inr scenario_boot \<and>
   metadata_loads (world scenario_boot) = 1 \<and> index_loads (world scenario_boot) = 0 \<and>
   0 < length (passes scenario_fetched) \<and>
   passes scenario_fetched ! 0 = AwaitProcessNotes [scenario_note] \<and>
   initEmbedder scenario_env = Inr True \<and>
   fst (loadVectorIndex (world scenario_fetched)) = Inr one_note_index \<and>
   index_writable (world scenario_fetched) \<and> map_writable (world scenario_fetched) \<and>
   metadata_writable (world scenario_fetched) \<and>
   index_file (world (updateIndex_resume scenario_env 0 scenario_fetched)) = Some [7, 3] \<and>
   map_file (world (updateIndex_resume scenario_env 0 scenario_fetched)) = Some [(1, ''n1'')] \<and>
   metadata_file (world (updateIndex_resume scenario_env 0 scenario_fetched))
     = Some (metadata_obj (updateIndex_resume scenario_env 0 scenario_fetched)) \<and>
   lastUpdate (metadata_obj (updateIndex_resume scenario_env 0 scenario_fetched)) = 1500"
  using lifecycle_of_metadata_and_index [where w = scenario_world and booted = scenario_boot
          and e = scenario_env and ev = PollTick and s = scenario_fetched and i = 0
          and ns = "[scenario_note]" and b = True and loaded = one_note_index]
        boot
  by (simp add: metadata_loads_def index_loads_def one_note_index_def
                scenario_defs watch_defs index_defs Let_def)

end
